theory Spec2Isabelle
  imports Complex_Main
begin

section \<open>The random source\<close>

text \<open>
  The program draws every random value from Python's module-level generator. The generator
  is modelled by the stream of its raw outputs and the position reached in it: each library
  call consumes one raw output. \<open>random()\<close> returns a multiple of \<open>2^-53\<close> in \<open>[0, 1)\<close>;
  \<open>uniform(a, b)\<close> is \<open>a + (b - a) * random()\<close>; \<open>randint(a, b)\<close> raises \<open>ValueError\<close> on
  an empty range and otherwise returns one of the \<open>b - a + 1\<close> integers of \<open>[a, b]\<close>;
  \<open>choice\<close> raises \<open>IndexError\<close> on an empty sequence. In this first part the arithmetic on
  floats is exact, on real numbers; the section on double precision gives the rounding of
  Python's floats and the partitioner with it. \<open>RecursionError\<close> is what the interpreter
  raises when the recursion depth runs out.
\<close>

datatype error = ValueError | TypeError | IndexError | ZeroDivisionError | RecursionError

datatype rng = Rng (raw: "nat \<Rightarrow> nat") (pos: nat)

definition next_raw :: "rng \<Rightarrow> nat \<times> rng" where
  "next_raw g = (raw g (pos g), Rng (raw g) (Suc (pos g)))"

definition random_random :: "rng \<Rightarrow> real \<times> rng" where
  "random_random g = (case next_raw g of (k, g') \<Rightarrow> (real (k mod 2 ^ 53) / 2 ^ 53, g'))"

definition random_uniform :: "real \<Rightarrow> real \<Rightarrow> rng \<Rightarrow> real \<times> rng" where
  "random_uniform a b g = (case random_random g of (u, g') \<Rightarrow> (a + (b - a) * u, g'))"

definition random_randint :: "int \<Rightarrow> int \<Rightarrow> rng \<Rightarrow> error + (int \<times> rng)" where
  "random_randint a b g =
     (if b < a then Inl ValueError
      else case next_raw g of (k, g') \<Rightarrow> Inr (a + int (k mod nat (b - a + 1)), g'))"

definition random_choice :: "'a list \<Rightarrow> rng \<Rightarrow> error + ('a \<times> rng)" where
  "random_choice xs g =
     (if xs = [] then Inl IndexError
      else case next_raw g of (k, g') \<Rightarrow> Inr (xs ! (k mod length xs), g'))"

text \<open>Sequencing of calls that may raise, and of calls that may also not return.\<close>

definition and_then :: "error + 'a \<Rightarrow> ('a \<Rightarrow> error + 'b) \<Rightarrow> error + 'b" where
  "and_then r f = (case r of Inl err \<Rightarrow> Inl err | Inr v \<Rightarrow> f v)"

definition and_then_opt ::
  "(error + 'a) option \<Rightarrow> ('a \<Rightarrow> (error + 'b) option) \<Rightarrow> (error + 'b) option" where
  "and_then_opt r f =
     (case r of None \<Rightarrow> None | Some (Inl err) \<Rightarrow> Some (Inl err) | Some (Inr v) \<Rightarrow> f v)"

text \<open>Python's \<open>int(x)\<close> on a float truncates towards zero; \<open>x // y\<close> is the floor of the
  quotient (every divisor in the program is a non-zero literal or a positive count).\<close>

definition py_int :: "real \<Rightarrow> int" where
  "py_int v = (if 0 \<le> v then \<lfloor>v\<rfloor> else \<lceil>v\<rceil>)"

definition floordiv :: "real \<Rightarrow> real \<Rightarrow> real" where
  "floordiv a b = of_int \<lfloor>a / b\<rfloor>"

section \<open>Color\<close>

type_synonym color = "int \<times> int \<times> int"

definition cellar_background_color :: color where
  "cellar_background_color = (211, 211, 211)"

definition white :: color where
  "white = (255, 255, 255)"

definition black :: color where
  "black = (0, 0, 0)"

definition dark_gray :: color where
  "dark_gray = (162, 162, 162)"

definition yellow :: color where
  "yellow = (255, 229, 124)"

definition random_color :: "rng \<Rightarrow> error + (color \<times> rng)" where
  "random_color g =
     and_then (random_randint 0 255 g) (\<lambda>(r, g1).
     and_then (random_randint 0 255 g1) (\<lambda>(gr, g2).
     and_then (random_randint 0 255 g2) (\<lambda>(bl, g3).
       Inr ((r, gr, bl), g3))))"

definition random_gray :: "rng \<Rightarrow> error + (color \<times> rng)" where
  "random_gray g =
     and_then (random_randint 204 255 g) (\<lambda>(v, g1). Inr ((v, v, v), g1))"

definition random_beer_color :: "rng \<Rightarrow> error + (color \<times> rng)" where
  "random_beer_color g =
     and_then (random_randint 0 1 g) (\<lambda>(coin, g0).
       if coin = 0 then
         and_then (random_randint 0 16 g0) (\<lambda>(r, g1).
         and_then (random_randint 112 144 g1) (\<lambda>(gr, g2).
         and_then (random_randint 0 16 g2) (\<lambda>(bl, g3).
           Inr ((r, gr, bl), g3))))
       else
         and_then (random_randint 73 105 g0) (\<lambda>(r, g1).
         and_then (random_randint 44 76 g1) (\<lambda>(gr, g2).
         and_then (random_randint 0 47 g2) (\<lambda>(bl, g3).
           Inr ((r, gr, bl), g3)))))"

section \<open>GlobalSetup\<close>

text \<open>
  The class-level constants. The body of the class runs when the module is loaded; it draws
  \<open>n_racks\<close> from the generator in the state it has at that moment and fixes the two item
  width bounds from it. These three values are kept in a record; the others do not depend
  on the generator.
\<close>

definition up_angle :: real where
  "up_angle = 0"

definition window_shape :: "int \<times> int" where
  "window_shape = (1600, 900)"

definition padding_left :: int where
  "padding_left = py_int (0.15 * of_int (fst window_shape))"

definition padding_right :: int where
  "padding_right = py_int (0.15 * of_int (fst window_shape))"

definition padding_top :: int where
  "padding_top = py_int (0.15 * of_int (snd window_shape))"

definition padding_bottom :: int where
  "padding_bottom = py_int (0.15 * of_int (snd window_shape))"

record padding =
  pad_left :: int
  pad_right :: int
  pad_top :: int
  pad_bottom :: int

definition GlobalSetup_padding :: padding where
  "GlobalSetup_padding =
     \<lparr>pad_left = padding_left, pad_right = padding_right,
      pad_top = padding_top, pad_bottom = padding_bottom\<rparr>"

definition rack_thickness :: int where
  "rack_thickness = 5"

definition real_h :: int where
  "real_h = snd window_shape - padding_top - padding_bottom"

definition real_w :: int where
  "real_w = fst window_shape - padding_left - padding_right"

definition min_number_of_shelves :: int where
  "min_number_of_shelves = max (real_h div 90) 3"

definition max_number_of_shelves :: int where
  "max_number_of_shelves = max (real_h div 40) 3"

definition min_number_of_racks :: int where
  "min_number_of_racks = max (real_w div 250) 2"

definition max_number_of_racks :: int where
  "max_number_of_racks = max (real_w div 100) 2"

definition n_racks_threshold :: int where
  "n_racks_threshold = (min_number_of_racks + max_number_of_racks) div 2"

record GlobalSetup =
  n_racks :: int
  max_item_width :: real
  min_item_width :: real

definition item_widths_for :: "int \<Rightarrow> GlobalSetup" where
  "item_widths_for n =
     (if n < n_racks_threshold
      then \<lparr>n_racks = n, max_item_width = 0.18, min_item_width = 0.08\<rparr>
      else \<lparr>n_racks = n, max_item_width = 0.27, min_item_width = 0.12\<rparr>)"

definition GlobalSetup_class_body :: "rng \<Rightarrow> error + (GlobalSetup \<times> rng)" where
  "GlobalSetup_class_body g =
     and_then (random_randint min_number_of_racks max_number_of_racks g) (\<lambda>(n, g1).
       Inr (item_widths_for n, g1))"

section \<open>Coords\<close>

text \<open>
  A \<open>Coords\<close> object keeps the pair \<open>coords\<close> and its two components \<open>x\<close> and \<open>y\<close>. The
  constructor subtracts half the window; \<open>undo_shift\<close> adds it back to the object and
  returns the object. Every object \<open>undo_shift\<close> is called on in the program is a fresh
  result of \<open>add_unbiased\<close>, so the objects are modelled as values.
\<close>

record Coords =
  coords :: "real \<times> real"
  coord_x :: real
  coord_y :: real

definition Coords_init :: "real \<Rightarrow> real \<Rightarrow> Coords" where
  "Coords_init x0 y0 =
     (let c = (x0 - of_int (fst window_shape div 2), y0 - of_int (snd window_shape div 2))
      in \<lparr>coords = c, coord_x = fst c, coord_y = snd c\<rparr>)"

definition undo_shift :: "Coords \<Rightarrow> Coords" where
  "undo_shift self =
     (let c = (fst (coords self) + of_int (fst window_shape div 2),
               snd (coords self) + of_int (snd window_shape div 2))
      in \<lparr>coords = c, coord_x = fst c, coord_y = snd c\<rparr>)"

definition add :: "Coords \<Rightarrow> Coords \<Rightarrow> Coords" where
  "add self other = Coords_init (coord_x self + coord_x other) (coord_y self + coord_y other)"

definition add_unbiased :: "Coords \<Rightarrow> real \<times> real \<Rightarrow> Coords" where
  "add_unbiased self other = Coords_init (coord_x self + fst other) (coord_y self + snd other)"

section \<open>Shelf.divide\<close>

text \<open>
  The recursive partitioner appends to \<open>store\<close> and draws its split points from the
  generator, so both are passed and returned. It need not return for every configuration;
  \<open>None\<close> stands for a call that does not return. This is the partitioner in exact
  arithmetic, with no bound on the recursion; \<open>divide_float\<close> below is the one in double
  precision.
\<close>

partial_function (option) divide ::
  "GlobalSetup \<Rightarrow> (real \<times> real) list \<Rightarrow> real \<Rightarrow> real \<Rightarrow> rng
     \<Rightarrow> ((real \<times> real) list \<times> rng) option" where
  "divide gs store b e g =
     (if e - b > max_item_width gs then
        (case random_uniform (b + min_item_width gs) (e - min_item_width gs) g of
           (div_point, g1) \<Rightarrow>
             Option.bind (divide gs store b div_point g1)
               (\<lambda>(store1, g2). divide gs store1 div_point e g2))
      else Some (store @ [(b, e)], g))"

declare divide.simps [code]

section \<open>Drawing primitives\<close>

text \<open>
  Every drawing method is a fixed sequence of calls to the turtle module; a drawing is the
  list of those calls in the order they are made.
\<close>

datatype turtle_op =
    tt_setup int int
  | tt_title string
  | tt_mode string
  | tt_colormode int
  | tt_speed int
  | tt_hideturtle
  | tt_up
  | tt_down
  | tt_setpos "real \<times> real"
  | tt_setheading real
  | tt_fillcolor color
  | tt_pencolor color
  | tt_begin_fill
  | tt_end_fill
  | tt_forward real
  | tt_right real
  | tt_update

definition draw_rectangle :: "Coords \<Rightarrow> real \<times> real \<Rightarrow> color \<Rightarrow> color \<Rightarrow> turtle_op list" where
  "draw_rectangle starting_coords shape bg_color pen_color =
     (case shape of (w, h) \<Rightarrow>
        [tt_up, tt_setpos (coords starting_coords), tt_setheading up_angle,
         tt_fillcolor bg_color, tt_pencolor pen_color, tt_begin_fill, tt_down,
         tt_forward h, tt_right 90, tt_forward w, tt_right 90, tt_forward h,
         tt_setpos (coords starting_coords), tt_end_fill, tt_update])"

definition draw_triangle :: "Coords \<Rightarrow> real \<Rightarrow> color \<Rightarrow> color \<Rightarrow> turtle_op list" where
  "draw_triangle starting_coords len bg_color pen_color =
     [tt_up, tt_setpos (coords starting_coords), tt_setheading 30,
      tt_fillcolor bg_color, tt_pencolor pen_color, tt_begin_fill, tt_down,
      tt_forward len, tt_right 120, tt_forward len, tt_right 120, tt_forward len,
      tt_end_fill, tt_update]"

definition draw_bottle :: "Coords \<Rightarrow> real \<Rightarrow> real \<Rightarrow> color \<Rightarrow> color \<Rightarrow> turtle_op list" where
  "draw_bottle starting_coords w h bg_color pen_color =
     (case coords starting_coords of (start_x, start_y) \<Rightarrow>
        [tt_up, tt_setpos (coords starting_coords), tt_setheading up_angle,
         tt_fillcolor bg_color, tt_pencolor pen_color, tt_begin_fill, tt_down,
         tt_setpos (start_x, start_y + floordiv h 2),
         tt_setpos (start_x + floordiv w 3, start_y + floordiv h 2 + floordiv w 3),
         tt_setpos (start_x + floordiv w 3, start_y + floordiv (11 * h) 12),
         tt_setpos (start_x + floordiv (2 * w) 3, start_y + floordiv (11 * h) 12),
         tt_setpos (start_x + floordiv (2 * w) 3, start_y + floordiv h 2 + floordiv w 3),
         tt_setpos (start_x + w, start_y + floordiv h 2),
         tt_setpos (start_x + w, start_y),
         tt_setpos (coords starting_coords), tt_end_fill, tt_update])"

section \<open>Items\<close>

text \<open>
  The constructors receive the slot's width and height as integers (\<open>Shelf\<close> passes
  \<open>int(length * width)\<close> and \<open>height - rack_thickness\<close>); a \<open>Salt\<close> may store a float
  width, so the fields are reals. Where a constructor reads \<open>self.w\<close> or \<open>self.h\<close> right
  after the base constructor stored the parameter, the model reads the parameter.
\<close>

datatype ItemType = JAR | JAR2 | SALT | BEER | BEER2

definition list_ItemType :: "ItemType list" where
  "list_ItemType = [JAR, JAR2, SALT, BEER, BEER2]"

record AbstractItem =
  item_lb_coords :: Coords
  item_w :: real
  item_h :: real
  item_color :: color

record Beer = AbstractItem +
  beer_color :: color
  label_color :: color
  cap_color :: color

datatype Item = JarItem AbstractItem | SaltItem AbstractItem | BeerItem Beer

definition AbstractItem_init :: "Coords \<Rightarrow> int \<Rightarrow> int \<Rightarrow> rng \<Rightarrow> error + (AbstractItem \<times> rng)" where
  "AbstractItem_init lb w h g =
     and_then (random_color g) (\<lambda>(c, g1).
       Inr (\<lparr>item_lb_coords = lb, item_w = of_int w, item_h = of_int h, item_color = c\<rparr>, g1))"

definition Jar_init :: "Coords \<Rightarrow> int \<Rightarrow> int \<Rightarrow> rng \<Rightarrow> error + (AbstractItem \<times> rng)" where
  "Jar_init lb w h g =
     and_then (AbstractItem_init lb w h g) (\<lambda>(self, g1).
     and_then (random_randint (h div 2) h g1) (\<lambda>(h', g2).
       Inr (self\<lparr>item_h := of_int h'\<rparr>, g2)))"

definition Salt_init :: "Coords \<Rightarrow> int \<Rightarrow> int \<Rightarrow> rng \<Rightarrow> error + (AbstractItem \<times> rng)" where
  "Salt_init lb w h g =
     and_then (AbstractItem_init lb w h g) (\<lambda>(self0, g1).
     and_then (random_gray g1) (\<lambda>(c, g2).
       let self = self0\<lparr>item_color := c\<rparr> in
       if floordiv (sqrt 3 * item_w self) 2 > item_h self then
         let new_w = floordiv (item_h self) (sqrt 3 / 2);
             delta_x = floordiv (item_w self - new_w) 2
         in Inr (self\<lparr>item_lb_coords :=
                         undo_shift (add_unbiased (item_lb_coords self) (delta_x, 0)),
                       item_w := new_w\<rparr>, g2)
       else Inr (self, g2)))"

definition Beer_init :: "Coords \<Rightarrow> int \<Rightarrow> int \<Rightarrow> rng \<Rightarrow> error + (Beer \<times> rng)" where
  "Beer_init lb w h g =
     and_then (AbstractItem_init lb w h g) (\<lambda>(base, g1).
     and_then (random_beer_color g1) (\<lambda>(bc, g2).
     and_then (random_color g2) (\<lambda>(lc, g3).
     and_then (random_color g3) (\<lambda>(cc, g4).
       let self = \<lparr>item_lb_coords = item_lb_coords base, item_w = item_w base,
                   item_h = item_h base, item_color = item_color base,
                   beer_color = bc, label_color = lc, cap_color = cc\<rparr> in
       if h > 2 * w then
         and_then (random_randint (2 * w) h g4) (\<lambda>(h', g5).
           Inr (self\<lparr>item_h := of_int h'\<rparr>, g5))
       else
         let new_w = h div 2 in
         Inr (self\<lparr>item_lb_coords :=
                      undo_shift (add_unbiased (item_lb_coords self)
                                    (of_int ((w - new_w) div 2), 0)),
                    item_w := of_int new_w\<rparr>, g4)))))"

definition Jar_draw :: "AbstractItem \<Rightarrow> turtle_op list" where
  "Jar_draw self =
     draw_rectangle (item_lb_coords self)
       (item_w self, of_int (py_int (item_h self * 6 / 7))) white black
     @ draw_rectangle
         (undo_shift (add_unbiased (item_lb_coords self)
            (floordiv (item_w self) 10, floordiv (6 * item_h self) 7)))
         (floordiv (4 * item_w self) 5, max 3 (floordiv (item_h self) 7)) dark_gray dark_gray
     @ draw_rectangle (item_lb_coords self)
         (item_w self, floordiv (54 * item_h self) 70) (item_color self) black
     @ draw_rectangle
         (undo_shift (add_unbiased (item_lb_coords self)
            (floordiv (item_w self) 4, floordiv (3 * item_h self) 14)))
         (floordiv (item_w self) 2, floordiv (3 * item_h self) 7) yellow black"

definition Salt_draw :: "AbstractItem \<Rightarrow> turtle_op list" where
  "Salt_draw self = draw_triangle (item_lb_coords self) (item_w self) (item_color self) black"

text \<open>The cap of a \<open>Beer\<close>, for the value of \<open>ran\<close> drawn by \<open>randint(0, 10)\<close>.\<close>

definition Beer_draw_cap :: "Beer \<Rightarrow> int \<Rightarrow> turtle_op list" where
  "Beer_draw_cap self rnd =
     (if rnd = 0 then
        draw_rectangle
          (undo_shift (add_unbiased (item_lb_coords self)
             (floordiv (item_w self) 3, floordiv (11 * item_h self) 12)))
          (floordiv (item_w self) 3, floordiv (item_h self) 12) (cap_color self) (cap_color self)
      else
        draw_rectangle
          (undo_shift (add_unbiased (item_lb_coords self)
             (floordiv (item_w self) 3, floordiv (11 * item_h self) 12)))
          (floordiv (item_w self) 3, floordiv (item_h self) 12)
          (label_color self) (label_color self))"

definition Beer_draw :: "Beer \<Rightarrow> rng \<Rightarrow> error + (turtle_op list \<times> rng)" where
  "Beer_draw self g =
     (let bottle = draw_bottle (item_lb_coords self) (item_w self) (item_h self)
                     (beer_color self) black;
          label = draw_rectangle
                    (undo_shift (add_unbiased (item_lb_coords self)
                       (0, floordiv (item_h self) 6)))
                    (item_w self, floordiv (item_h self) 4) (label_color self) black
      in and_then (random_randint 0 10 g) (\<lambda>(rnd, g1).
           Inr (bottle @ label @ Beer_draw_cap self rnd, g1)))"

fun Item_draw :: "Item \<Rightarrow> rng \<Rightarrow> error + (turtle_op list \<times> rng)" where
  "Item_draw (JarItem self) g = Inr (Jar_draw self, g)"
| "Item_draw (SaltItem self) g = Inr (Salt_draw self, g)"
| "Item_draw (BeerItem self) g = Beer_draw self g"

section \<open>Shelf\<close>

record Shelf =
  shelf_width :: int
  shelf_height :: int
  shelf_lb_coords :: "int \<times> int"
  shelf_color :: color
  shelf_items :: "Item list"

fun choice_dict :: "ItemType \<Rightarrow> Coords \<Rightarrow> int \<Rightarrow> int \<Rightarrow> rng \<Rightarrow> error + (Item \<times> rng)" where
  "choice_dict JAR lb w h g = and_then (Jar_init lb w h g) (\<lambda>(it, g1). Inr (JarItem it, g1))"
| "choice_dict JAR2 lb w h g = and_then (Jar_init lb w h g) (\<lambda>(it, g1). Inr (JarItem it, g1))"
| "choice_dict SALT lb w h g = and_then (Salt_init lb w h g) (\<lambda>(it, g1). Inr (SaltItem it, g1))"
| "choice_dict BEER lb w h g = and_then (Beer_init lb w h g) (\<lambda>(it, g1). Inr (BeerItem it, g1))"
| "choice_dict BEER2 lb w h g = and_then (Beer_init lb w h g) (\<lambda>(it, g1). Inr (BeerItem it, g1))"

text \<open>The loop of the constructor over \<open>item_widths\<close>: \<open>item_lb\<close> is the running
  \<open>item_lb_coords\<close>, \<open>items\<close> the list built so far.\<close>

fun place_items ::
  "int \<Rightarrow> int \<Rightarrow> real list \<Rightarrow> real \<times> real \<Rightarrow> Item list \<Rightarrow> rng \<Rightarrow> error + (Item list \<times> rng)" where
  "place_items width height [] item_lb items g = Inr (items, g)"
| "place_items width height (len # rest) item_lb items g =
     and_then (random_choice list_ItemType g) (\<lambda>(random_item_type, g1).
     and_then (choice_dict random_item_type (Coords_init (fst item_lb) (snd item_lb))
                 (py_int (len * of_int width)) (height - rack_thickness) g1) (\<lambda>(it, g2).
       place_items width height rest (fst item_lb + len * of_int width, snd item_lb)
         (items @ [it]) g2))"

definition Shelf_init ::
  "GlobalSetup \<Rightarrow> int \<Rightarrow> int \<Rightarrow> int \<times> int \<Rightarrow> color \<Rightarrow> rng \<Rightarrow> (error + (Shelf \<times> rng)) option" where
  "Shelf_init gs w h lb color g =
     (case divide gs [] 0 1 g of
        None \<Rightarrow> None
      | Some (end_item_coords, g1) \<Rightarrow>
          Some (and_then
            (place_items w h (map (\<lambda>c. snd c - fst c) end_item_coords)
               (of_int (fst lb), of_int (snd lb + rack_thickness)) [] g1)
            (\<lambda>(items, g2).
               Inr (\<lparr>shelf_width = w, shelf_height = h, shelf_lb_coords = lb,
                     shelf_color = color, shelf_items = items\<rparr>, g2))))"

fun draw_items :: "Item list \<Rightarrow> rng \<Rightarrow> error + (turtle_op list \<times> rng)" where
  "draw_items [] g = Inr ([], g)"
| "draw_items (it # rest) g =
     and_then (Item_draw it g) (\<lambda>(ops, g1).
     and_then (draw_items rest g1) (\<lambda>(ops', g2). Inr (ops @ ops', g2)))"

definition Shelf_draw :: "Shelf \<Rightarrow> rng \<Rightarrow> error + (turtle_op list \<times> rng)" where
  "Shelf_draw self g =
     and_then (draw_items (shelf_items self) g) (\<lambda>(ops, g1).
       Inr (draw_rectangle
              (Coords_init (of_int (fst (shelf_lb_coords self)))
                 (of_int (snd (shelf_lb_coords self))))
              (of_int (shelf_width self), of_int rack_thickness)
              (shelf_color self) (shelf_color self) @ ops, g1))"

section \<open>Rack\<close>

record Rack =
  rack_width :: int
  rack_height :: int
  rack_lb_coords :: "int \<times> int"
  rack_n_shelves :: int
  rack_color :: color
  rack_shelves :: "Shelf list"

text \<open>The loop \<open>for _ in range(n_shelves - 1)\<close>; it returns the shelves and the running
  \<open>s_coords\<close>.\<close>

fun stack_shelves ::
  "GlobalSetup \<Rightarrow> nat \<Rightarrow> int \<Rightarrow> int \<Rightarrow> int \<times> int \<Rightarrow> color \<Rightarrow> Shelf list \<Rightarrow> rng
     \<Rightarrow> (error + (Shelf list \<times> (int \<times> int) \<times> rng)) option" where
  "stack_shelves gs 0 shelf_w shelf_h s_coords color shelves g =
     Some (Inr (shelves, s_coords, g))"
| "stack_shelves gs (Suc n) shelf_w shelf_h s_coords color shelves g =
     and_then_opt (Shelf_init gs shelf_w shelf_h s_coords color g) (\<lambda>(sh, g1).
       stack_shelves gs n shelf_w shelf_h (fst s_coords, snd s_coords + shelf_h) color
         (shelves @ [sh]) g1)"

text \<open>\<open>n_shelves\<close> comes from \<open>randint\<close> over a range of positive numbers, so the division
  by it is defined.\<close>

definition Rack_init ::
  "GlobalSetup \<Rightarrow> int \<Rightarrow> int \<Rightarrow> int \<times> int \<Rightarrow> rng \<Rightarrow> (error + (Rack \<times> rng)) option" where
  "Rack_init gs w h lb g =
     and_then_opt (Some (random_randint min_number_of_shelves max_number_of_shelves g))
       (\<lambda>(n_shelves, g1).
     and_then_opt (Some (random_color g1)) (\<lambda>(color, g2).
       let shelf_w = w - 2 * rack_thickness;
           shelf_h = h div n_shelves;
           s_coords = (fst lb + rack_thickness,
                       snd lb + shelf_h div 2 - rack_thickness div 2)
       in
       and_then_opt
         (if n_shelves > 1
          then stack_shelves gs (nat (n_shelves - 1)) shelf_w shelf_h s_coords color [] g2
          else Some (Inr ([], s_coords, g2)))
         (\<lambda>(shelves, s_coords', g3).
       and_then_opt (Shelf_init gs shelf_w (shelf_h div 2) s_coords' color g3) (\<lambda>(sh, g4).
         Some (Inr (\<lparr>rack_width = w, rack_height = h, rack_lb_coords = lb,
                     rack_n_shelves = n_shelves, rack_color = color,
                     rack_shelves = shelves @ [sh]\<rparr>, g4))))))"

definition draw_rack_alone :: "Rack \<Rightarrow> turtle_op list" where
  "draw_rack_alone self =
     draw_rectangle
       (Coords_init (of_int (fst (rack_lb_coords self))) (of_int (snd (rack_lb_coords self))))
       (of_int rack_thickness, of_int (rack_height self)) (rack_color self) (rack_color self)
     @ draw_rectangle
         (Coords_init
            (of_int (fst (rack_lb_coords self) + rack_width self - rack_thickness))
            (of_int (snd (rack_lb_coords self))))
         (of_int rack_thickness, of_int (rack_height self)) (rack_color self) (rack_color self)"

fun draw_shelves :: "Shelf list \<Rightarrow> rng \<Rightarrow> error + (turtle_op list \<times> rng)" where
  "draw_shelves [] g = Inr ([], g)"
| "draw_shelves (sh # rest) g =
     and_then (Shelf_draw sh g) (\<lambda>(ops, g1).
     and_then (draw_shelves rest g1) (\<lambda>(ops', g2). Inr (ops @ ops', g2)))"

definition Rack_draw :: "Rack \<Rightarrow> rng \<Rightarrow> error + (turtle_op list \<times> rng)" where
  "Rack_draw self g =
     and_then (draw_shelves (rack_shelves self) g) (\<lambda>(ops, g1).
       Inr (draw_rack_alone self @ ops @ draw_rack_alone self, g1))"

section \<open>Screen\<close>

record Screen =
  window_height :: int
  window_width :: int
  screen_n_racks :: int
  screen_pad :: padding
  joint_rack_w :: int
  rack_h :: int
  racks :: "Rack list"

text \<open>The loop \<open>for _ in range(self.n_racks)\<close> of the constructor.\<close>

fun build_racks ::
  "GlobalSetup \<Rightarrow> nat \<Rightarrow> int \<Rightarrow> int \<Rightarrow> int \<times> int \<Rightarrow> Rack list \<Rightarrow> rng
     \<Rightarrow> (error + (Rack list \<times> rng)) option" where
  "build_racks gs 0 rack_w h_rack lb rs g = Some (Inr (rs, g))"
| "build_racks gs (Suc n) rack_w h_rack lb rs g =
     and_then_opt (Rack_init gs rack_w h_rack lb g) (\<lambda>(r, g1).
       build_racks gs n rack_w h_rack (fst lb + rack_w, snd lb) (rs @ [r]) g1)"

text \<open>
  \<open>screen_width\<close> and \<open>screen_height\<close> are what the resolution probe of \<open>GlobalSetup()\<close>
  found, \<open>None\<close> when it failed. The window's width and height are integers in the model,
  so the \<open>TypeError\<close> of the constructor cannot be raised.
\<close>

definition Screen_init ::
  "GlobalSetup \<Rightarrow> int option \<Rightarrow> int option \<Rightarrow> padding option \<Rightarrow> rng
     \<Rightarrow> (error + (Screen \<times> rng)) option" where
  "Screen_init gs screen_width screen_height pad g =
     (case window_shape of (w, h) \<Rightarrow>
        if screen_width \<noteq> None \<and> screen_height \<noteq> None
           \<and> (h > the screen_height \<or> w > the screen_width)
        then Some (Inl ValueError)
        else
          let pad' = (case pad of
                        None \<Rightarrow> \<lparr>pad_left = py_int (0.15 * of_int w),
                                  pad_right = py_int (0.15 * of_int w),
                                  pad_top = py_int (0.15 * of_int h),
                                  pad_bottom = py_int (0.15 * of_int h)\<rparr>
                      | Some p \<Rightarrow> p);
              joint = w - pad_left pad' - pad_right pad'
          in
          if n_racks gs = 0 then Some (Inl ZeroDivisionError)
          else
            let rack_w = joint div n_racks gs;
                h_rack = h - pad_top pad' - pad_bottom pad'
            in
            if rack_w < 1 \<or> h_rack < 1 then Some (Inl ValueError)
            else
              and_then_opt
                (build_racks gs (nat (n_racks gs)) rack_w h_rack
                   (pad_left pad', pad_bottom pad') [] g)
                (\<lambda>(rs, g1).
                   Some (Inr (\<lparr>window_height = h, window_width = w,
                               screen_n_racks = n_racks gs, screen_pad = pad',
                               joint_rack_w = joint, rack_h = h_rack,
                               racks = rs\<rparr>, g1))))"

definition Screen_setup :: "Screen \<Rightarrow> turtle_op list" where
  "Screen_setup self =
     [tt_setup (window_width self) (window_height self),
      tt_title ''Dreamy cellar during pandemic'',
      tt_mode ''logo'', tt_colormode 255, tt_speed 10]"

fun draw_racks :: "Rack list \<Rightarrow> rng \<Rightarrow> error + (turtle_op list \<times> rng)" where
  "draw_racks [] g = Inr ([], g)"
| "draw_racks (r # rest) g =
     and_then (Rack_draw r g) (\<lambda>(ops, g1).
     and_then (draw_racks rest g1) (\<lambda>(ops', g2). Inr (ops @ ops', g2)))"

definition Screen_draw :: "Screen \<Rightarrow> rng \<Rightarrow> error + (turtle_op list \<times> rng)" where
  "Screen_draw self g =
     and_then (draw_racks (racks self) g) (\<lambda>(ops, g1).
       Inr ([tt_hideturtle]
            @ draw_rectangle
                (Coords_init (of_int (pad_left (screen_pad self)))
                   (of_int (pad_bottom (screen_pad self))))
                (of_int (joint_rack_w self), of_int (rack_h self))
                cellar_background_color cellar_background_color
            @ ops @ [tt_update], g1))"

section \<open>main\<close>

text \<open>
  \<open>random.seed(s)\<close> puts the generator at the start of the stream that the library
  derives from \<open>s\<close>; the derivation is the library's and is a parameter, \<open>twister\<close>.
  \<open>main\<close> runs after the module is loaded, with the \<open>GlobalSetup\<close> values the class body
  fixed then; \<open>program\<close> is the whole run from the generator state \<open>g_load\<close> that the
  interpreter starts with, which no seed of the program determines.
\<close>

definition random_seed :: "(int \<Rightarrow> nat \<Rightarrow> nat) \<Rightarrow> int \<Rightarrow> rng" where
  "random_seed twister s = Rng (twister s) 0"

definition main ::
  "(int \<Rightarrow> nat \<Rightarrow> nat) \<Rightarrow> GlobalSetup \<Rightarrow> int option \<Rightarrow> int option
     \<Rightarrow> (error + turtle_op list) option" where
  "main twister gs screen_width screen_height =
     (let g = random_seed twister 677 in
      and_then_opt (Screen_init gs screen_width screen_height (Some GlobalSetup_padding) g)
        (\<lambda>(window, g1).
           Some (and_then (Screen_draw window g1) (\<lambda>(ops, g2).
             Inr (Screen_setup window @ ops)))))"

definition program ::
  "(int \<Rightarrow> nat \<Rightarrow> nat) \<Rightarrow> rng \<Rightarrow> int option \<Rightarrow> int option \<Rightarrow> (error + turtle_op list) option" where
  "program twister g_load screen_width screen_height =
     and_then_opt (Some (GlobalSetup_class_body g_load)) (\<lambda>(gs, g1).
       main twister gs screen_width screen_height)"

section \<open>Double precision\<close>

text \<open>
  A Python float is an IEEE 754 double: a multiple \<open>m * 2^(e - 52)\<close> of a power of two with
  \<open>\<bar>m\<bar> < 2^53\<close>, where \<open>e\<close> is the exponent of its binade and at least \<open>-1022\<close>. The doubles
  are modelled by the real numbers they denote. \<open>to_double t\<close> is the double nearest to \<open>t\<close>,
  the one with the even \<open>m\<close> when two are equally near; the sum, difference and product of two
  floats are the exact results rounded that way. Overflow to infinity is not modelled:
  every operand in the statements below is far below \<open>2^1023\<close>.
\<close>

definition round_even :: "real \<Rightarrow> int" where
  "round_even t =
     (if t - of_int \<lfloor>t\<rfloor> < 1 / 2 then \<lfloor>t\<rfloor>
      else if 1 / 2 < t - of_int \<lfloor>t\<rfloor> then \<lfloor>t\<rfloor> + 1
      else if even \<lfloor>t\<rfloor> then \<lfloor>t\<rfloor> else \<lfloor>t\<rfloor> + 1)"

definition double_exponent :: "real \<Rightarrow> int" where
  "double_exponent t = max \<lfloor>log 2 \<bar>t\<bar>\<rfloor> (- 1022)"

definition to_double :: "real \<Rightarrow> real" where
  "to_double t =
     (if t = 0 then 0
      else of_int (round_even (t / 2 powr of_int (double_exponent t - 52)))
             * 2 powr of_int (double_exponent t - 52))"

definition float_add :: "real \<Rightarrow> real \<Rightarrow> real" where
  "float_add a b = to_double (a + b)"

definition float_sub :: "real \<Rightarrow> real \<Rightarrow> real" where
  "float_sub a b = to_double (a - b)"

definition float_mul :: "real \<Rightarrow> real \<Rightarrow> real" where
  "float_mul a b = to_double (a * b)"

text \<open>\<open>uniform(a, b)\<close> on floats, and the partitioner on floats. \<open>GlobalSetup\<close> holds the
  doubles nearest to its decimal literals. Each call of \<open>divide\<close> takes one more frame of the
  interpreter's stack; the first argument is the number of frames still to be had, and the
  call that finds none raises \<open>RecursionError\<close>.\<close>

definition float_uniform :: "real \<Rightarrow> real \<Rightarrow> rng \<Rightarrow> real \<times> rng" where
  "float_uniform a b g =
     (case random_random g of (u, g') \<Rightarrow> (float_add a (float_mul (float_sub b a) u), g'))"

fun divide_float ::
  "nat \<Rightarrow> GlobalSetup \<Rightarrow> (real \<times> real) list \<Rightarrow> real \<Rightarrow> real \<Rightarrow> rng
     \<Rightarrow> error + ((real \<times> real) list \<times> rng)" where
  "divide_float 0 gs store b e g = Inl RecursionError"
| "divide_float (Suc depth) gs store b e g =
     (if float_sub e b > to_double (max_item_width gs) then
        (case float_uniform (float_add b (to_double (min_item_width gs)))
                (float_sub e (to_double (min_item_width gs))) g of
           (div_point, g1) \<Rightarrow>
             and_then (divide_float depth gs store b div_point g1)
               (\<lambda>(store1, g2). divide_float depth gs store1 div_point e g2))
      else Inr (store @ [(b, e)], g))"

section \<open>Notions used in the statements\<close>

text \<open>\<open>tiles b e ivs\<close>: the intervals \<open>ivs\<close>, read left to right, start at \<open>b\<close>, each one
  ends where the next one begins, and the last one ends at \<open>e\<close>.\<close>

fun tiles :: "real \<Rightarrow> real \<Rightarrow> (real \<times> real) list \<Rightarrow> bool" where
  "tiles b e [] = False"
| "tiles b e [iv] = (fst iv = b \<and> snd iv = e)"
| "tiles b e (iv # iv' # ivs) = (fst iv = b \<and> tiles (snd iv) e (iv' # ivs))"


text \<open>What a call of \<open>divide_float\<close> on \<open>[b, e]\<close> leaves behind: a chain of leaves inside
  \<open>[b, e]\<close>, none longer than the maximum width in the code's own subtraction; after a split
  each leaf is at least the minimum width less \<open>7 * 2^-52\<close> long, and without one the span
  itself is the only leaf.\<close>

definition float_leaves_ok :: "GlobalSetup \<Rightarrow> real \<Rightarrow> real \<Rightarrow> (real \<times> real) list \<Rightarrow> bool" where
  "float_leaves_ok gs b e ivs \<longleftrightarrow>
     tiles b e ivs \<and>
     (\<forall>iv \<in> set ivs. b \<le> fst iv \<and> fst iv \<le> snd iv \<and> snd iv \<le> e \<and>
        float_sub (snd iv) (fst iv) \<le> to_double (max_item_width gs)) \<and>
     (if to_double (max_item_width gs) < float_sub e b
      then \<forall>iv \<in> set ivs. min_item_width gs - 7 / 2 ^ 52 \<le> snd iv - fst iv
      else ivs = [(b, e)])"





text \<open>A bottle whose label and cap colours differ, to count the outcomes of the cap draw on.\<close>

definition beer0 :: Beer where
  "beer0 = \<lparr>item_lb_coords = Coords_init 0 0, item_w = 12, item_h = 36, item_color = (0, 0, 0),
            beer_color = (0, 112, 0), label_color = (1, 2, 3), cap_color = (4, 5, 6)\<rparr>"

section \<open>The random source stays in range\<close>

lemma random_random_range: "0 \<le> fst (random_random g) \<and> fst (random_random g) < 1"
  by (simp add: random_random_def next_raw_def split: prod.splits)

lemma random_uniform_range:
  assumes "a \<le> b"
  shows "a \<le> fst (random_uniform a b g) \<and> fst (random_uniform a b g) \<le> b"
proof -
  obtain u g' where u: "random_random g = (u, g')" by (cases "random_random g")
  with random_random_range [of g] have u01: "0 \<le> u" "u < 1" by simp_all
  have "0 \<le> (b - a) * u" using assms u01 by simp
  moreover have "(b - a) * u \<le> (b - a) * 1"
    using assms u01 by (intro mult_left_mono) simp_all
  ultimately show ?thesis using u by (simp add: random_uniform_def)
qed

section \<open>The configuration\<close>

lemma GlobalSetup_constants:
  "padding_left = 240" "padding_right = 240" "padding_top = 135" "padding_bottom = 135"
  "real_h = 630" "real_w = 1120"
  "min_number_of_shelves = 7" "max_number_of_shelves = 15"
  "min_number_of_racks = 4" "max_number_of_racks = 11" "n_racks_threshold = 7"
  by (simp_all add: n_racks_threshold_def min_number_of_racks_def max_number_of_racks_def
      min_number_of_shelves_def max_number_of_shelves_def real_w_def real_h_def
      window_shape_def padding_left_def padding_right_def padding_top_def padding_bottom_def
      py_int_def)

lemma item_widths_valid:
  "0 < min_item_width (item_widths_for n) \<and>
   2 * min_item_width (item_widths_for n) \<le> max_item_width (item_widths_for n)"
  by (simp add: item_widths_for_def)

section \<open>The partition\<close>

lemma tiles_append: "tiles b d xs \<Longrightarrow> tiles d e ys \<Longrightarrow> tiles b e (xs @ ys)"
proof (induction b d xs rule: tiles.induct)
  case (1 b e)
  then show ?case by simp
next
  case (2 b e iv)
  then show ?case by (cases ys) auto
next
  case (3 b e iv iv' ivs)
  then show ?case by simp
qed

lemma tiles_sum: "tiles b e ivs \<Longrightarrow> (\<Sum>iv\<leftarrow>ivs. snd iv - fst iv) = e - b"
  by (induction b e ivs rule: tiles.induct) auto

lemma tiles_ends: "tiles b e ivs \<Longrightarrow> ivs \<noteq> [] \<and> fst (hd ivs) = b \<and> snd (last ivs) = e"
  by (induction b e ivs rule: tiles.induct) auto

lemma tiles_adjacent:
  "tiles b e ivs \<Longrightarrow> Suc i < length ivs \<Longrightarrow> snd (ivs ! i) = fst (ivs ! Suc i)"
proof (induction b e ivs arbitrary: i rule: tiles.induct)
  case (3 b e iv iv' ivs)
  show ?case
  proof (cases i)
    case 0
    with 3 show ?thesis by (cases ivs) auto
  next
    case (Suc j)
    with 3 show ?thesis by simp
  qed
qed simp_all


text \<open>With a positive minimum that is at most half the maximum, every call returns: the
  number of minimum widths that fit into the span goes down at each split.\<close>

lemma divide_returns:
  assumes "0 < min_item_width gs" "2 * min_item_width gs \<le> max_item_width gs"
  shows "\<exists>y. divide gs store b e g = Some y"
proof (induction "nat \<lfloor>(e - b) / min_item_width gs\<rfloor>" arbitrary: store b e g rule: less_induct)
  case less
  let ?mn = "min_item_width gs"
  show ?case
  proof (cases "e - b > max_item_width gs")
    case False
    then show ?thesis by (subst divide.simps) simp
  next
    case True
    obtain d g1 where d: "random_uniform (b + ?mn) (e - ?mn) g = (d, g1)"
      by (cases "random_uniform (b + ?mn) (e - ?mn) g")
    have margins: "b + ?mn \<le> d \<and> d \<le> e - ?mn"
      using random_uniform_range [of "b + ?mn" "e - ?mn" g] True d assms by simp
    have big: "2 \<le> \<lfloor>(e - b) / ?mn\<rfloor>"
      using True assms by (simp add: le_floor_iff pos_le_divide_eq)
    have shrink: "nat \<lfloor>s / ?mn\<rfloor> < nat \<lfloor>(e - b) / ?mn\<rfloor>" if "s \<le> e - b - ?mn" for s
    proof -
      have "s / ?mn \<le> (e - b) / ?mn - 1"
        using that assms by (simp add: field_simps)
      then have "\<lfloor>s / ?mn\<rfloor> \<le> \<lfloor>(e - b) / ?mn\<rfloor> - 1"
        by (metis floor_mono floor_diff_one)
      with big show ?thesis by linarith
    qed
    have l: "d - b \<le> e - b - ?mn" and r: "e - d \<le> e - b - ?mn"
      using margins by simp_all
    from less [OF shrink [OF l]] obtain y1 where y1: "divide gs store b d g1 = Some y1"
      by blast
    from less [OF shrink [OF r]] obtain y2
      where y2: "divide gs (fst y1) d e (snd y1) = Some y2"
      by blast
    show ?thesis
      using True d y1 y2 by (subst divide.simps) (auto split: prod.splits)
  qed
qed

section \<open>Rounding to a double\<close>

lemma round_even_error: "\<bar>of_int (round_even t) - t\<bar> \<le> 1 / 2"
proof -
  have "of_int \<lfloor>t\<rfloor> \<le> t" "t < of_int \<lfloor>t\<rfloor> + 1" by linarith+
  then show ?thesis unfolding round_even_def by (simp add: abs_le_iff)
qed

lemma round_even_unique:
  assumes "\<bar>t - of_int m\<bar> < 1 / 2"
  shows "round_even t = m"
proof -
  have "\<bar>of_int (round_even t) - t\<bar> \<le> 1 / 2" by (rule round_even_error)
  with assms have "\<bar>real_of_int (round_even t) - of_int m\<bar> < 1" by linarith
  then have "\<bar>round_even t - m\<bar> < 1" by (metis of_int_diff of_int_abs of_int_less_1_iff)
  then show ?thesis by linarith
qed

lemma round_even_ge: "of_int n \<le> t \<Longrightarrow> n \<le> round_even t"
  unfolding round_even_def by (auto simp: le_floor_iff) linarith+

lemma round_even_below_half: "t < of_int n + 1 / 2 \<Longrightarrow> round_even t \<le> n"
proof -
  assume a: "t < of_int n + 1 / 2"
  have f: "of_int \<lfloor>t\<rfloor> \<le> t" by simp
  show ?thesis
  proof (cases "t - of_int \<lfloor>t\<rfloor> < 1 / 2")
    case True
    from a f have "real_of_int \<lfloor>t\<rfloor> < of_int n + 1" by linarith
    then have "\<lfloor>t\<rfloor> < n + 1" by (metis of_int_1 of_int_add of_int_less_iff)
    with True show ?thesis by (simp add: round_even_def)
  next
    case False
    with a have "real_of_int \<lfloor>t\<rfloor> < of_int n" by linarith
    then have "\<lfloor>t\<rfloor> + 1 \<le> n" by simp
    with False show ?thesis by (simp add: round_even_def)
  qed
qed

lemma round_even_le: "t \<le> of_int n \<Longrightarrow> round_even t \<le> n"
proof -
  assume a: "t \<le> of_int n"
  show ?thesis
  proof (cases "t = of_int n")
    case True
    then show ?thesis by (simp add: round_even_def)
  next
    case False
    with a have "t < of_int n" by simp
    then have "\<lfloor>t\<rfloor> < n" by (simp add: floor_less_iff)
    then have "\<lfloor>t\<rfloor> + 1 \<le> n" by simp
    then show ?thesis unfolding round_even_def by auto
  qed
qed

lemma double_exponent_eq:
  assumes "2 powr of_int e \<le> \<bar>t\<bar>" "\<bar>t\<bar> < 2 powr of_int (e + 1)" "- 1022 \<le> e"
  shows "double_exponent t = e"
proof -
  have pos: "0 < \<bar>t\<bar>" using assms(1) by (smt (verit) powr_gt_zero)
  have "of_int e \<le> log 2 \<bar>t\<bar>" using assms(1) pos by (simp add: le_log_iff)
  moreover have "log 2 \<bar>t\<bar> < of_int (e + 1)" using assms(2) pos by (simp add: log_less_iff)
  ultimately have "\<lfloor>log 2 \<bar>t\<bar>\<rfloor> = e" by (intro floor_unique) simp_all
  with assms(3) show ?thesis by (simp add: double_exponent_def)
qed

text \<open>Evaluating a rounding: the result \<open>m / 2^k\<close>, for a value in the binade of \<open>2^(52 - k)\<close>.\<close>

lemma to_double_div:
  assumes "2 ^ 52 \<le> \<bar>t\<bar> * 2 ^ k" "\<bar>t\<bar> * 2 ^ k < 2 ^ 53" "k \<le> 1074"
    and "\<bar>t * 2 ^ k - of_int m\<bar> < 1 / 2"
  shows "to_double t = of_int m / 2 ^ k"
proof -
  have p: "(2::real) powr of_int (52 - int k) = 2 ^ 52 / 2 ^ k"
    by (simp add: powr_diff powr_realpow)
  have p1: "(2::real) powr of_int (52 - int k + 1) = 2 ^ 53 / 2 ^ k"
    by (simp add: powr_diff powr_realpow powr_add)
  have "double_exponent t = 52 - int k"
  proof (rule double_exponent_eq)
    show "2 powr of_int (52 - int k) \<le> \<bar>t\<bar>" unfolding p using assms(1) by (simp add: field_simps)
    show "\<bar>t\<bar> < 2 powr of_int (52 - int k + 1)" unfolding p1 using assms(2) by (simp add: field_simps)
    show "- 1022 \<le> 52 - int k" using assms(3) by simp
  qed
  then have u: "(2::real) powr of_int (double_exponent t - 52) = 1 / 2 ^ k"
    by (simp add: powr_minus powr_realpow inverse_eq_divide)
  have "t \<noteq> 0" using assms(1) by auto
  moreover have "round_even (t * 2 ^ k) = m" using assms(4) by (rule round_even_unique)
  ultimately show ?thesis unfolding to_double_def u by simp
qed

lemma to_double_grid:
  assumes "2 ^ 52 \<le> \<bar>t\<bar> / 2 ^ k" "\<bar>t\<bar> / 2 ^ k < 2 ^ 53"
  shows "to_double t = of_int (round_even (t / 2 ^ k)) * 2 ^ k"
proof -
  have p: "(2::real) powr of_int (52 + int k) = 2 ^ 52 * 2 ^ k"
    by (simp add: powr_add powr_realpow)
  have p1: "(2::real) powr of_int (52 + int k + 1) = 2 ^ 53 * 2 ^ k"
    by (simp add: powr_add powr_realpow)
  have "double_exponent t = 52 + int k"
  proof (rule double_exponent_eq)
    show "2 powr of_int (52 + int k) \<le> \<bar>t\<bar>" unfolding p using assms(1) by (simp add: field_simps)
    show "\<bar>t\<bar> < 2 powr of_int (52 + int k + 1)" unfolding p1 using assms(2) by (simp add: field_simps)
    show "- 1022 \<le> 52 + int k" by simp
  qed
  then have u: "(2::real) powr of_int (double_exponent t - 52) = 2 ^ k"
    by (simp add: powr_realpow)
  have "t \<noteq> 0" using assms(1) by auto
  then show ?thesis unfolding to_double_def u by simp
qed

lemma to_double_mul:
  assumes "2 ^ 52 \<le> \<bar>t\<bar> / 2 ^ k" "\<bar>t\<bar> / 2 ^ k < 2 ^ 53"
    and "\<bar>t / 2 ^ k - of_int m\<bar> < 1 / 2"
  shows "to_double t = of_int m * 2 ^ k"
  using to_double_grid [OF assms(1,2)] round_even_unique [OF assms(3)] by simp

lemma to_double_div_eq:
  assumes "y * 2 ^ k = of_int m"
    and "2 ^ 52 \<le> \<bar>t\<bar> * 2 ^ k" "\<bar>t\<bar> * 2 ^ k < 2 ^ 53" "k \<le> 1074"
    and "\<bar>t * 2 ^ k - of_int m\<bar> < 1 / 2"
  shows "to_double t = y"
proof -
  have "y = of_int m / 2 ^ k" using assms(1) by (simp add: field_simps)
  with to_double_div [OF assms(2-5)] show ?thesis by simp
qed

lemma to_double_mul_eq:
  assumes "y = of_int m * 2 ^ k"
    and "2 ^ 52 \<le> \<bar>t\<bar> / 2 ^ k" "\<bar>t\<bar> / 2 ^ k < 2 ^ 53"
    and "\<bar>t / 2 ^ k - of_int m\<bar> < 1 / 2"
  shows "to_double t = y"
  using to_double_mul [OF assms(2-4)] assms(1) by simp

lemma to_double_zero [simp]: "to_double 0 = 0"
  by (simp add: to_double_def)

lemma to_double_nonneg: "0 \<le> t \<Longrightarrow> 0 \<le> to_double t"
  using round_even_ge [of 0 "t / 2 powr of_int (double_exponent t - 52)"]
  by (simp add: to_double_def)

lemma to_double_error:
  assumes "\<bar>t\<bar> \<le> 2"
  shows "\<bar>to_double t - t\<bar> \<le> 1 / 2 ^ 52"
proof (cases "t = 0")
  case True
  then show ?thesis by simp
next
  case False
  define u :: real where "u = 2 powr of_int (double_exponent t - 52)"
  have upos: "0 < u" by (simp add: u_def)
  have "log 2 \<bar>t\<bar> \<le> 1" using assms False by (simp add: log_le_iff)
  then have "\<lfloor>log 2 \<bar>t\<bar>\<rfloor> \<le> 1" by (simp add: floor_le_iff)
  then have "double_exponent t \<le> 1" by (simp add: double_exponent_def)
  then have "u \<le> 2 powr of_int (- 51 :: int)" unfolding u_def by (intro powr_mono) simp_all
  also have "\<dots> = 1 / 2 ^ 51" by (simp add: powr_minus powr_realpow inverse_eq_divide)
  finally have u51: "u \<le> 1 / 2 ^ 51" .
  have "to_double t - t = (of_int (round_even (t / u)) - t / u) * u"
    using False upos by (simp add: to_double_def u_def field_simps)
  then have "\<bar>to_double t - t\<bar> = \<bar>of_int (round_even (t / u)) - t / u\<bar> * u"
    using upos by (simp add: abs_mult)
  also have "\<dots> \<le> 1 / 2 * u"
    using round_even_error [of "t / u"] upos by (intro mult_right_mono) simp_all
  also have "\<dots> \<le> 1 / 2 ^ 52" using u51 by simp
  finally show ?thesis .
qed

section \<open>The partition in double precision\<close>

lemma to_double_error_le:
  assumes "\<bar>t\<bar> \<le> 2 ^ j"
  shows "\<bar>to_double t - t\<bar> \<le> 2 ^ j / 2 ^ 53"
proof (cases "t = 0")
  case True
  then show ?thesis by simp
next
  case False
  define u :: real where "u = 2 powr of_int (double_exponent t - 52)"
  have upos: "0 < u" by (simp add: u_def)
  have "\<bar>t\<bar> \<le> 2 powr of_nat j" using assms by (simp add: powr_realpow)
  then have "log 2 \<bar>t\<bar> \<le> of_nat j" using False by (simp add: log_le_iff)
  then have "\<lfloor>log 2 \<bar>t\<bar>\<rfloor> \<le> int j" by (simp add: floor_le_iff)
  then have "double_exponent t \<le> int j" by (simp add: double_exponent_def)
  then have "u \<le> 2 powr of_int (int j - 52)" unfolding u_def by (intro powr_mono) simp_all
  also have "\<dots> = 2 ^ j / 2 ^ 52" by (simp add: powr_diff powr_realpow)
  finally have u52: "u \<le> 2 ^ j / 2 ^ 52" .
  have "to_double t - t = (of_int (round_even (t / u)) - t / u) * u"
    using False upos by (simp add: to_double_def u_def field_simps)
  then have "\<bar>to_double t - t\<bar> = \<bar>of_int (round_even (t / u)) - t / u\<bar> * u"
    using upos by (simp add: abs_mult)
  also have "\<dots> \<le> 1 / 2 * u"
    using round_even_error [of "t / u"] upos by (intro mult_right_mono) simp_all
  also have "\<dots> \<le> 2 ^ j / 2 ^ 53" using u52 by simp
  finally show ?thesis .
qed

lemma to_double_near:
  assumes "\<bar>t\<bar> \<le> 2"
  shows "t - 1 / 2 ^ 52 \<le> to_double t" "to_double t \<le> t + 1 / 2 ^ 52"
  using to_double_error [OF assms] unfolding abs_le_iff by linarith+

lemma scaled_between:
  fixes r u :: real
  assumes "0 \<le> u" "u \<le> 1"
  shows "min r 0 \<le> r * u" "r * u \<le> max r 0"
proof -
  have "r * u \<le> r" "0 \<le> r * u" if "0 \<le> r"
    using that assms by (simp_all add: mult_left_le)
  moreover have "r \<le> r * u" "r * u \<le> 0" if "r \<le> 0"
  proof -
    have "(- r) * u \<le> - r" using that assms by (intro mult_left_le) simp_all
    then show "r \<le> r * u" by simp
    show "r * u \<le> 0" using that assms by (simp add: mult_nonpos_nonneg)
  qed
  ultimately show "min r 0 \<le> r * u" "r * u \<le> max r 0"
    by (cases "0 \<le> r"; simp add: min_def max_def; linarith)+
qed

text \<open>The split point of a call on a part of the unit interval: the six roundings on the
  way to it move it by less than \<open>7 * 2^-52\<close>.\<close>

lemma float_uniform_split:
  assumes cfg: "0 \<le> min_item_width gs" "2 * min_item_width gs \<le> max_item_width gs"
      "max_item_width gs \<le> 1"
    and iv: "0 \<le> b" "b \<le> e" "e \<le> 1"
    and big: "to_double (max_item_width gs) < float_sub e b"
    and d: "float_uniform (float_add b (to_double (min_item_width gs)))
              (float_sub e (to_double (min_item_width gs))) g = (d, g1)"
  shows "b + min_item_width gs - 7 / 2 ^ 52 \<le> d" "d \<le> e - min_item_width gs + 7 / 2 ^ 52"
proof -
  let ?mn = "min_item_width gs" and ?mx = "max_item_width gs"
  define dl :: real where "dl = 1 / 2 ^ 52"
  define mf where "mf = to_double ?mn"
  define a where "a = float_add b mf"
  define bb where "bb = float_sub e mf"
  define r where "r = float_sub bb a"
  define u where "u = fst (random_random g)"
  define p where "p = float_mul r u"
  have dl: "0 < dl" "dl \<le> 1 / 1000" by (simp_all add: dl_def)
  have d': "d = float_add a p"
    using d by (simp add: float_uniform_def a_def bb_def r_def u_def p_def mf_def split: prod.splits)
  have u: "0 \<le> u" "u \<le> 1"
    using random_random_range [of g] by (simp_all add: u_def)
  have mf: "?mn - dl \<le> mf" "mf \<le> ?mn + dl"
    unfolding mf_def dl_def using cfg by (intro to_double_near; simp)+
  have xf: "?mx - dl \<le> to_double ?mx"
    unfolding dl_def using cfg by (intro to_double_near) simp
  have "float_sub e b \<le> e - b + dl"
    unfolding float_sub_def dl_def using iv by (intro to_double_near) simp
  with big xf cfg have span: "2 * ?mn - 2 * dl < e - b" by linarith
  have a: "b + mf - dl \<le> a" "a \<le> b + mf + dl"
    unfolding a_def float_add_def dl_def using iv mf cfg dl by (intro to_double_near; simp; linarith)+
  have bb: "e - mf - dl \<le> bb" "bb \<le> e - mf + dl"
    unfolding bb_def float_sub_def dl_def using iv mf cfg dl by (intro to_double_near; simp; linarith)+
  have r: "bb - a - dl \<le> r" "r \<le> bb - a + dl"
    unfolding r_def float_sub_def dl_def using iv a bb mf cfg dl span
    by (intro to_double_near; simp; linarith)+
  have ru: "min r 0 \<le> r * u" "r * u \<le> max r 0" using scaled_between [OF u] by simp_all
  have p: "r * u - dl \<le> p" "p \<le> r * u + dl"
    unfolding p_def float_mul_def dl_def using ru r iv a bb mf cfg dl span
    by (intro to_double_near; simp; linarith)+
  have dd: "a + p - dl \<le> d" "d \<le> a + p + dl"
    unfolding d' float_add_def dl_def using p ru r iv a bb mf cfg dl span
    by (intro to_double_near; simp; linarith)+
  show "b + ?mn - 7 / 2 ^ 52 \<le> d"
    using dd p ru r iv a bb mf cfg span unfolding dl_def by linarith
  show "d \<le> e - ?mn + 7 / 2 ^ 52"
    using dd p ru r iv a bb mf cfg span unfolding dl_def by linarith
qed

lemma float_leaves_ok_leaf:
  assumes "b \<le> e" "float_sub e b \<le> to_double (max_item_width gs)"
  shows "float_leaves_ok gs b e [(b, e)]"
  using assms by (simp add: float_leaves_ok_def)

text \<open>On a part of the unit interval a call with enough recursion depth left returns, and
  the leaves it has appended tile the part.\<close>

lemma divide_float_unit:
  assumes cfg: "7 / 2 ^ 52 < min_item_width gs" "2 * min_item_width gs \<le> max_item_width gs"
      "max_item_width gs \<le> 1"
  shows "0 \<le> b \<Longrightarrow> b \<le> e \<Longrightarrow> e \<le> 1 \<Longrightarrow>
     e - b \<le> real depth * (min_item_width gs - 7 / 2 ^ 52) \<Longrightarrow> 0 < depth \<Longrightarrow>
     \<exists>ivs g'. divide_float depth gs store b e g = Inr (store @ ivs, g') \<and>
       float_leaves_ok gs b e ivs"
proof (induction depth arbitrary: store b e g)
  case 0
  then show ?case by simp
next
  case (Suc depth)
  let ?mn = "min_item_width gs" and ?xf = "to_double (max_item_width gs)"
  show ?case
  proof (cases "?xf < float_sub e b")
    case False
    then have "divide_float (Suc depth) gs store b e g = Inr (store @ [(b, e)], g)" by simp
    moreover have "float_leaves_ok gs b e [(b, e)]"
      using False Suc.prems(2) by (intro float_leaves_ok_leaf) simp_all
    ultimately show ?thesis by blast
  next
    case True
    obtain d g1 where d: "float_uniform (float_add b (to_double ?mn))
        (float_sub e (to_double ?mn)) g = (d, g1)"
      by (cases "float_uniform (float_add b (to_double ?mn)) (float_sub e (to_double ?mn)) g")
    have mn0: "0 \<le> ?mn" using cfg(1) by simp
    note sp = float_uniform_split [OF mn0 cfg(2,3) Suc.prems(1-3) True d]
    define mg where "mg = ?mn - 7 / 2 ^ 52"
    have mg: "0 < mg" using cfg(1) by (simp add: mg_def)
    have lo: "b + mg \<le> d" and hi: "d + mg \<le> e"
      using sp by (simp_all add: mg_def)
    have "real (Suc depth) * mg = real depth * mg + mg" by (simp add: algebra_simps)
    then have sd: "e - b \<le> real depth * mg + mg"
      using Suc.prems(4) unfolding mg_def [symmetric] by simp
    have dep: "0 < depth"
    proof (rule ccontr)
      assume "\<not> 0 < depth"
      then have "e - b \<le> mg" using sd by simp
      with lo hi mg show False by simp
    qed
    have l: "d - b \<le> real depth * (?mn - 7 / 2 ^ 52)"
      and r: "e - d \<le> real depth * (?mn - 7 / 2 ^ 52)"
      unfolding mg_def [symmetric] using lo hi sd by linarith+
    have bd: "0 \<le> b" "b \<le> d" "d \<le> 1" "0 \<le> d" "d \<le> e" "e \<le> 1"
      using lo hi mg Suc.prems(1-3) by simp_all
    from Suc.IH [OF bd(1-3) l dep, of store g1] obtain ivs1 g2
      where c1: "divide_float depth gs store b d g1 = Inr (store @ ivs1, g2)"
        and l1: "float_leaves_ok gs b d ivs1" by blast
    from Suc.IH [OF bd(4-6) r dep, of "store @ ivs1" g2] obtain ivs2 g3
      where c2: "divide_float depth gs (store @ ivs1) d e g2 = Inr ((store @ ivs1) @ ivs2, g3)"
        and l2: "float_leaves_ok gs d e ivs2" by blast
    have res: "divide_float (Suc depth) gs store b e g = Inr (store @ (ivs1 @ ivs2), g3)"
      using True d c1 c2 by (simp add: and_then_def)
    have t: "tiles b e (ivs1 @ ivs2)"
      using l1 l2 by (auto simp: float_leaves_ok_def intro: tiles_append)
    have in1: "\<forall>iv \<in> set ivs1. b \<le> fst iv \<and> fst iv \<le> snd iv \<and> snd iv \<le> e \<and>
        float_sub (snd iv) (fst iv) \<le> ?xf"
      using l1 bd unfolding float_leaves_ok_def by fastforce
    have in2: "\<forall>iv \<in> set ivs2. b \<le> fst iv \<and> fst iv \<le> snd iv \<and> snd iv \<le> e \<and>
        float_sub (snd iv) (fst iv) \<le> ?xf"
      using l2 bd unfolding float_leaves_ok_def by fastforce
    have m1: "\<forall>iv \<in> set ivs1. ?mn - 7 / 2 ^ 52 \<le> snd iv - fst iv"
    proof (cases "?xf < float_sub d b")
      case True
      with l1 show ?thesis by (simp add: float_leaves_ok_def)
    next
      case False
      with l1 have "ivs1 = [(b, d)]" by (simp add: float_leaves_ok_def)
      with sp(1) show ?thesis by simp
    qed
    have m2: "\<forall>iv \<in> set ivs2. ?mn - 7 / 2 ^ 52 \<le> snd iv - fst iv"
    proof (cases "?xf < float_sub e d")
      case True
      with l2 show ?thesis by (simp add: float_leaves_ok_def)
    next
      case False
      with l2 have "ivs2 = [(d, e)]" by (simp add: float_leaves_ok_def)
      with sp(2) show ?thesis by simp
    qed
    have "float_leaves_ok gs b e (ivs1 @ ivs2)"
      unfolding float_leaves_ok_def using t in1 in2 m1 m2 True by auto
    with res show ?thesis by blast
  qed
qed


lemma divide_float_leaf:
  "0 < n \<Longrightarrow> float_sub e b \<le> to_double (max_item_width gs) \<Longrightarrow>
   divide_float n gs st b e g = Inr (st @ [(b, e)], g)"
  by (cases n) simp_all

lemma divide_float_node:
  "0 < n \<Longrightarrow> to_double (max_item_width gs) < float_sub e b \<Longrightarrow>
   float_uniform (float_add b (to_double (min_item_width gs)))
     (float_sub e (to_double (min_item_width gs))) g = (d, g1) \<Longrightarrow>
   divide_float n gs st b e g =
     and_then (divide_float (n - 1) gs st b d g1) (\<lambda>(st1, g2). divide_float (n - 1) gs st1 d e g2)"
  by (cases n) simp_all

lemma float_uniform_const:
  "c < 2 ^ 53 \<Longrightarrow> float_uniform a b (Rng (\<lambda>n. c) k) =
     (float_add a (float_mul (float_sub b a) (real c / 2 ^ 53)), Rng (\<lambda>n. c) (Suc k))"
  by (simp add: float_uniform_def random_random_def next_raw_def)

lemma float_regimes:
  "7 / 2 ^ 52 < min_item_width (item_widths_for n)"
  "2 * min_item_width (item_widths_for n) \<le> max_item_width (item_widths_for n)"
  "max_item_width (item_widths_for n) \<le> 1"
  "1 \<le> 13 * (min_item_width (item_widths_for n) - 7 / 2 ^ 52)"
  by (simp_all add: item_widths_for_def)

lemma float_widths_4:
  "to_double (min_item_width (item_widths_for 4)) = 5764607523034235 / 72057594037927936"
  "to_double (max_item_width (item_widths_for 4)) = 3242591731706757 / 18014398509481984"
proof -
  show "to_double (min_item_width (item_widths_for 4)) = 5764607523034235 / 72057594037927936"
    by (rule to_double_div_eq [where k = 56 and m = 5764607523034235])
      (simp_all add: item_widths_for_def GlobalSetup_constants)
  show "to_double (max_item_width (item_widths_for 4)) = 3242591731706757 / 18014398509481984"
    by (rule to_double_div_eq [where k = 55 and m = 6485183463413514])
      (simp_all add: item_widths_for_def GlobalSetup_constants)
qed

lemma float_widths_8:
  "to_double (min_item_width (item_widths_for 8)) = 1080863910568919 / 9007199254740992"
  "to_double (max_item_width (item_widths_for 8)) = 607985949695017 / 2251799813685248"
proof -
  show "to_double (min_item_width (item_widths_for 8)) = 1080863910568919 / 9007199254740992"
    by (rule to_double_div_eq [where k = 56 and m = 8646911284551352])
      (simp_all add: item_widths_for_def GlobalSetup_constants)
  show "to_double (max_item_width (item_widths_for 8)) = 607985949695017 / 2251799813685248"
    by (rule to_double_div_eq [where k = 54 and m = 4863887597560136])
      (simp_all add: item_widths_for_def GlobalSetup_constants)
qed

lemma to_double_16_32: "to_double 16 = 16" "to_double 32 = 32"
proof -
  show "to_double 16 = 16"
    by (rule to_double_div_eq [where k = 48 and m = 4503599627370496]) simp_all
  show "to_double 32 = 32"
    by (rule to_double_div_eq [where k = 47 and m = 4503599627370496]) simp_all
qed

text \<open>A double of the binade of \<open>10^17\<close> absorbs a term below 8.\<close>

lemma to_double_absorbs:
  assumes "6250000000000000 \<le> i" "i \<le> 6250000000000002" "\<bar>s\<bar> < 8"
  shows "to_double (16 * of_int i + s) = 16 * of_int i"
proof (rule to_double_mul_eq [where k = 4 and m = i])
  have ri: "6250000000000000 \<le> real_of_int i" "real_of_int i \<le> 6250000000000002"
    using assms by simp_all
  have pos: "\<bar>16 * real_of_int i + s\<bar> = 16 * real_of_int i + s" using ri assms(3) by simp
  show "16 * real_of_int i = of_int i * 2 ^ 4" by simp
  show "2 ^ 52 \<le> \<bar>16 * real_of_int i + s\<bar> / 2 ^ 4"
    unfolding pos using ri assms(3) by simp
  show "\<bar>16 * real_of_int i + s\<bar> / 2 ^ 4 < 2 ^ 53"
    unfolding pos using ri assms(3) by simp
  have eq: "(16 * real_of_int i + s) / 2 ^ 4 - of_int i = s / 16" by (simp add: field_simps)
  show "\<bar>(16 * real_of_int i + s) / 2 ^ 4 - of_int i\<bar> < 1 / 2"
    unfolding eq using assms(3) by simp
qed

text \<open>Near \<open>10^17\<close> the doubles are the multiples of 16. A call on two of them that are 16 or
  32 apart adds and subtracts the minimum width without effect, so one of the two parts it
  recurses on is again 16 or 32 long: whatever the draws, the recursion depth runs out.\<close>

lemma divide_float_absorbed:
  "6250000000000000 \<le> i \<Longrightarrow> i < j \<Longrightarrow> j \<le> 6250000000000002 \<Longrightarrow>
   divide_float depth (item_widths_for 4) store (16 * of_int i) (16 * of_int j) g
     = Inl RecursionError"
proof (induction depth arbitrary: store i j g)
  case 0
  show ?case by simp
next
  case (Suc depth)
  let ?gs = "item_widths_for 4"
  let ?mf = "5764607523034235 / 72057594037927936 :: real"
  let ?b = "16 * real_of_int i" and ?e = "16 * real_of_int j"
  have ri: "6250000000000000 \<le> real_of_int i" "real_of_int i \<le> 6250000000000001"
    using Suc.prems by simp_all
  have rj: "6250000000000001 \<le> real_of_int j" "real_of_int j \<le> 6250000000000002"
    using Suc.prems by simp_all
  have "j - i = 1 \<or> j - i = 2" using Suc.prems by linarith
  then have span: "float_sub ?e ?b = 16 * of_int (j - i)" "0 < j - i" "j - i \<le> 2"
    by (auto simp: float_sub_def to_double_16_32 algebra_simps)
  have big: "to_double (max_item_width ?gs) < float_sub ?e ?b"
    using span by (simp add: float_widths_4)
  have a: "float_add ?b ?mf = ?b"
    unfolding float_add_def using Suc.prems by (intro to_double_absorbs) simp_all
  have "to_double (?e + (- ?mf)) = ?e"
    using Suc.prems by (intro to_double_absorbs) simp_all
  then have bb: "float_sub ?e ?mf = ?e" by (simp add: float_sub_def)
  obtain u g1 where u: "random_random g = (u, g1)" by (cases "random_random g")
  have ur: "0 \<le> u" "u < 1" using random_random_range [of g] u by simp_all
  define r :: real where "r = 16 * of_int (j - i)"
  have r: "0 < r" "r \<le> 32" using span(2,3) by (simp_all add: r_def)
  define p where "p = float_mul r u"
  have ru: "0 \<le> r * u" "r * u < r" using r ur by simp_all
  have p0: "0 \<le> p" unfolding p_def float_mul_def using ru by (intro to_double_nonneg)
  have "r * u \<le> 32" using ru(2) r(2) by linarith
  then have "\<bar>to_double (r * u) - r * u\<bar> \<le> 2 ^ 5 / 2 ^ 53"
    using ru(1) by (intro to_double_error_le) simp
  also have "\<dots> \<le> (1 :: real)" by simp
  finally have "to_double (r * u) - r * u \<le> 1" unfolding abs_le_iff by linarith
  then have p1: "p < r + 1" unfolding p_def float_mul_def using ru(2) by linarith
  define k where "k = round_even ((?b + p) / 2 ^ 4)"
  have d: "float_add ?b p = 16 * of_int k"
    unfolding float_add_def k_def using to_double_grid [of "?b + p" 4] ri p0 p1 r by simp
  have ik: "i \<le> k" unfolding k_def using p0 by (intro round_even_ge) simp
  have "(?b + p) / 2 ^ 4 < of_int j + 1 / 2" using p1 by (simp add: r_def)
  then have kj: "k \<le> j" unfolding k_def by (rule round_even_below_half)
  have fu: "float_uniform (float_add ?b (to_double (min_item_width ?gs)))
      (float_sub ?e (to_double (min_item_width ?gs))) g = (16 * of_int k, g1)"
    unfolding float_widths_4 a bb float_uniform_def u span(1) r_def [symmetric]
    using d by (simp add: p_def)
  have step: "divide_float (Suc depth) ?gs store ?b ?e g =
      and_then (divide_float depth ?gs store ?b (16 * of_int k) g1)
        (\<lambda>(store1, g2). divide_float depth ?gs store1 (16 * of_int k) ?e g2)"
    by (subst divide_float.simps(2)) (simp only: big if_True fu prod.case)
  show ?case
  proof (cases "i < k")
    case True
    have "divide_float depth ?gs store ?b (16 * of_int k) g1 = Inl RecursionError"
      using Suc.prems(1) True kj Suc.prems(3) by (intro Suc.IH) simp_all
    then show ?thesis unfolding step by (simp add: and_then_def)
  next
    case False
    with ik have ki: "k = i" by simp
    have second: "divide_float depth ?gs st ?b ?e g2 = Inl RecursionError" for st g2
      using Suc.prems by (intro Suc.IH)
    show ?thesis
    proof (cases depth)
      case 0
      then show ?thesis unfolding step by (simp add: and_then_def)
    next
      case (Suc m)
      have "divide_float depth ?gs store ?b ?b g1 = Inr (store @ [(?b, ?b)], g1)"
        unfolding Suc by (simp add: float_sub_def float_widths_4)
      then show ?thesis unfolding step ki by (simp add: and_then_def second)
    qed
  qed
qed

lemma divide_float_1e17:
  "divide_float depth (item_widths_for 4) store 100000000000000000 100000000000000032 g
     = Inl RecursionError"
  using divide_float_absorbed [of 6250000000000000 6250000000000002 depth store g] by simp

text \<open>The call on \<open>[0.7999999999999999, 1.0]\<close> with the bounds \<open>0.08\<close> and \<open>0.18\<close> and the
  draw \<open>0.0\<close>, operation by operation.\<close>

lemma c1_sub1: "float_sub 1 (7205759403792793 / 9007199254740992) = 1801439850948199 / 9007199254740992"
  unfolding float_sub_def
  by (rule to_double_div_eq [where k = 55 and m = 7205759403792796]) simp_all

lemma c1_add2: "float_add (7205759403792793 / 9007199254740992) (5764607523034235 / 72057594037927936) = 990791918021509 / 1125899906842624"
  unfolding float_add_def
  by (rule to_double_div_eq [where k = 53 and m = 7926335344172072]) simp_all

lemma c1_sub3: "float_sub 1 (5764607523034235 / 72057594037927936) = 8286623314361713 / 9007199254740992"
  unfolding float_sub_def
  by (rule to_double_div_eq [where k = 53 and m = 8286623314361713]) simp_all

lemma c1_sub4: "float_sub (8286623314361713 / 9007199254740992) (990791918021509 / 1125899906842624) = 360287970189641 / 9007199254740992"
  unfolding float_sub_def
  by (rule to_double_div_eq [where k = 57 and m = 5764607523034256]) simp_all

lemma c1_mul5: "float_mul (360287970189641 / 9007199254740992) 0 = 0"
  by (simp add: float_mul_def)

lemma c1_add6: "float_add (990791918021509 / 1125899906842624) 0 = 990791918021509 / 1125899906842624"
  unfolding float_add_def
  by (rule to_double_div_eq [where k = 53 and m = 7926335344172072]) simp_all

lemma c1_sub7: "float_sub (990791918021509 / 1125899906842624) (7205759403792793 / 9007199254740992) = 720575940379279 / 9007199254740992"
  unfolding float_sub_def
  by (rule to_double_div_eq [where k = 56 and m = 5764607523034232]) simp_all

lemma c1_leaf8:
  assumes "1 \<le> dp"
  shows "divide_float dp (item_widths_for 4) st (7205759403792793 / 9007199254740992) (990791918021509 / 1125899906842624) g = Inr (st @ [(7205759403792793 / 9007199254740992, 990791918021509 / 1125899906842624)], g)"
  using assms by (intro divide_float_leaf) (simp_all add: float_widths_4 c1_sub7)

lemma c1_sub9: "float_sub 1 (990791918021509 / 1125899906842624) = 135107988821115 / 1125899906842624"
  unfolding float_sub_def
  by (rule to_double_div_eq [where k = 56 and m = 8646911284551360]) simp_all

lemma c1_leaf10:
  assumes "1 \<le> dp"
  shows "divide_float dp (item_widths_for 4) st (990791918021509 / 1125899906842624) 1 g = Inr (st @ [(990791918021509 / 1125899906842624, 1)], g)"
  using assms by (intro divide_float_leaf) (simp_all add: float_widths_4 c1_sub9)

lemma c1_node11:
  assumes "2 \<le> dp"
  shows "divide_float dp (item_widths_for 4) st (7205759403792793 / 9007199254740992) 1 (Rng (\<lambda>n. 0) k) =
     Inr (st @ [(7205759403792793 / 9007199254740992, 990791918021509 / 1125899906842624), (990791918021509 / 1125899906842624, 1)], Rng (\<lambda>n. 0) (Suc k))"
proof -
  have u: "float_uniform (float_add (7205759403792793 / 9007199254740992) (to_double (min_item_width (item_widths_for 4))))
      (float_sub 1 (to_double (min_item_width (item_widths_for 4)))) (Rng (\<lambda>n. 0) k) = (990791918021509 / 1125899906842624, Rng (\<lambda>n. 0) (Suc k))"
    by (simp add: float_uniform_const float_widths_4 c1_add2 c1_sub3 c1_sub4 c1_mul5 c1_add6)
  have big: "to_double (max_item_width (item_widths_for 4)) < float_sub 1 (7205759403792793 / 9007199254740992)"
    by (simp add: float_widths_4 c1_sub1)
  have c1: "divide_float (dp - 1) (item_widths_for 4) st (7205759403792793 / 9007199254740992) (990791918021509 / 1125899906842624) (Rng (\<lambda>n. 0) (Suc k)) =
     Inr (st @ [(7205759403792793 / 9007199254740992, 990791918021509 / 1125899906842624)], Rng (\<lambda>n. 0) (Suc k))"
    using assms by (intro c1_leaf8) simp
  have c2: "divide_float (dp - 1) (item_widths_for 4) st' (990791918021509 / 1125899906842624) 1 (Rng (\<lambda>n. 0) (Suc k)) =
     Inr (st' @ [(990791918021509 / 1125899906842624, 1)], Rng (\<lambda>n. 0) (Suc k))" for st'
    using assms by (intro c1_leaf10) simp
  have "0 < dp" using assms by simp
  note step = divide_float_node [OF this big u]
  show ?thesis
    by (simp only: step c1 c2 and_then_def sum.case prod.case append_assoc append.simps)
qed


lemma to_double_one: "to_double 1 = 1"
  by (rule to_double_div_eq [where k = 52 and m = 4503599627370496]) simp_all

lemma float_leaves_sum:
  assumes "float_leaves_ok gs b e ivs"
  shows "ivs \<noteq> []" "fst (hd ivs) = b" "snd (last ivs) = e"
    "\<forall>i. Suc i < length ivs \<longrightarrow> snd (ivs ! i) = fst (ivs ! Suc i)"
    "(\<Sum>iv\<leftarrow>ivs. snd iv - fst iv) = e - b"
proof -
  have t: "tiles b e ivs" using assms by (simp add: float_leaves_ok_def)
  show "ivs \<noteq> []" "fst (hd ivs) = b" "snd (last ivs) = e"
    using tiles_ends [OF t] by simp_all
  show "\<forall>i. Suc i < length ivs \<longrightarrow> snd (ivs ! i) = fst (ivs ! Suc i)"
    using tiles_adjacent [OF t] by blast
  show "(\<Sum>iv\<leftarrow>ivs. snd iv - fst iv) = e - b" using tiles_sum [OF t] .
qed

text \<open>
  Claim C1, in double precision. The endpoints of the leaves are shared exactly, so the
  intervals tile the span and their exact lengths add up to \<open>e - b\<close>; no leaf is longer than
  the maximum width, in the subtraction the code itself makes. A leaf can be shorter than
  the minimum width: the six roundings on the way to a split point can move it by up to
  \<open>7 * 2^-52\<close>. The statement is for the parts of the unit interval, with the maximum width
  at most 1 and enough recursion depth left.
\<close>

theorem divide_float_tiles_span:
  assumes "7 / 2 ^ 52 < min_item_width gs" "2 * min_item_width gs \<le> max_item_width gs"
    and "max_item_width gs \<le> 1"
    and "0 \<le> b" "b \<le> e" "e \<le> 1"
    and "to_double (max_item_width gs) < float_sub e b"
    and "e - b \<le> real depth * (min_item_width gs - 7 / 2 ^ 52)"
  shows "\<exists>ivs g'. divide_float depth gs store b e g = Inr (store @ ivs, g') \<and> ivs \<noteq> [] \<and>
           fst (hd ivs) = b \<and> snd (last ivs) = e \<and>
           (\<forall>i. Suc i < length ivs \<longrightarrow> snd (ivs ! i) = fst (ivs ! Suc i)) \<and>
           (\<Sum>iv\<leftarrow>ivs. snd iv - fst iv) = e - b \<and>
           (\<forall>iv \<in> set ivs. float_sub (snd iv) (fst iv) \<le> to_double (max_item_width gs) \<and>
              min_item_width gs - 7 / 2 ^ 52 \<le> snd iv - fst iv \<and>
              min_item_width gs - 8 / 2 ^ 52 \<le> float_sub (snd iv) (fst iv))"
proof -
  have dep: "0 < depth"
  proof (rule ccontr)
    assume "\<not> 0 < depth"
    with assms(5,8) have "e = b" by simp
    moreover have "0 \<le> to_double (max_item_width gs)"
      using assms(1,2) by (intro to_double_nonneg) simp
    ultimately show False using assms(7) by (simp add: float_sub_def)
  qed
  from divide_float_unit [OF assms(1-3) assms(4-6) assms(8) dep, of store g] obtain ivs g'
    where r: "divide_float depth gs store b e g = Inr (store @ ivs, g')"
      and ok: "float_leaves_ok gs b e ivs" by blast
  have each: "float_sub (snd iv) (fst iv) \<le> to_double (max_item_width gs) \<and>
      min_item_width gs - 7 / 2 ^ 52 \<le> snd iv - fst iv \<and>
      min_item_width gs - 8 / 2 ^ 52 \<le> float_sub (snd iv) (fst iv)" if "iv \<in> set ivs" for iv
  proof -
    from ok that assms(7)
    have p: "b \<le> fst iv" "fst iv \<le> snd iv" "snd iv \<le> e"
      "float_sub (snd iv) (fst iv) \<le> to_double (max_item_width gs)"
      "min_item_width gs - 7 / 2 ^ 52 \<le> snd iv - fst iv"
      by (simp_all add: float_leaves_ok_def)
    have "\<bar>snd iv - fst iv\<bar> \<le> 2" using p(1-3) assms(4,6) by simp
    from to_double_near(1) [OF this]
    have "snd iv - fst iv - 1 / 2 ^ 52 \<le> float_sub (snd iv) (fst iv)"
      by (simp add: float_sub_def)
    with p(4,5) show ?thesis by simp
  qed
  show ?thesis
    using r float_leaves_sum [OF ok] each by (intro exI [of _ ivs] exI [of _ g']) simp
qed

theorem divide_float_tiles_span_witness:
  "7 / 2 ^ 52 < min_item_width (item_widths_for 8) \<and>
   2 * min_item_width (item_widths_for 8) \<le> max_item_width (item_widths_for 8) \<and>
   max_item_width (item_widths_for 8) \<le> 1 \<and>
   to_double (max_item_width (item_widths_for 8)) < float_sub 1 0 \<and>
   1 - 0 \<le> real 13 * (min_item_width (item_widths_for 8) - 7 / 2 ^ 52) \<and>
   (\<exists>ivs g'. divide_float 13 (item_widths_for 8) [] 0 1 (Rng (\<lambda>n. 0) 0) = Inr (ivs, g') \<and>
      ivs \<noteq> [] \<and> fst (hd ivs) = 0 \<and> snd (last ivs) = 1 \<and>
      (\<Sum>iv\<leftarrow>ivs. snd iv - fst iv) = 1 \<and>
      (\<forall>iv \<in> set ivs.
         float_sub (snd iv) (fst iv) \<le> to_double (max_item_width (item_widths_for 8))))"
proof -
  let ?gs = "item_widths_for 8"
  have h7: "to_double (max_item_width ?gs) < float_sub 1 0"
    by (simp add: float_sub_def to_double_one float_widths_8)
  have h8: "1 - 0 \<le> real 13 * (min_item_width ?gs - 7 / 2 ^ 52)"
    using float_regimes(4) [of 8] by simp
  from divide_float_tiles_span [OF float_regimes(1-3) _ _ _ h7 h8, of "[]" "Rng (\<lambda>n. 0) 0"]
  obtain ivs g' where "divide_float 13 ?gs [] 0 1 (Rng (\<lambda>n. 0) 0) = Inr (ivs, g')"
    "ivs \<noteq> []" "fst (hd ivs) = 0" "snd (last ivs) = 1" "(\<Sum>iv\<leftarrow>ivs. snd iv - fst iv) = 1"
    "\<forall>iv \<in> set ivs. float_sub (snd iv) (fst iv) \<le> to_double (max_item_width ?gs)"
    by auto
  then show ?thesis using float_regimes(1-3) [of 8] h7 h8 by blast
qed

text \<open>Claim C1 as stated fails. With the bounds \<open>0.08\<close> and \<open>0.18\<close>, the call on
  \<open>[0.7999999999999999, 1.0]\<close> whose draw is \<open>0.0\<close> splits at \<open>0.8799999999999999\<close>, and its
  first leaf is \<open>0.07999999999999996\<close> long, which is below the minimum width.\<close>

theorem divide_float_short_leaf_counterexample:
  "2 * min_item_width (item_widths_for 4) \<le> max_item_width (item_widths_for 4) \<and>
   max_item_width (item_widths_for 4) < 1 - 7205759403792793 / 9007199254740992 \<and>
   to_double (max_item_width (item_widths_for 4))
     < float_sub 1 (7205759403792793 / 9007199254740992) \<and>
   divide_float 1000 (item_widths_for 4) [] (7205759403792793 / 9007199254740992) 1
       (Rng (\<lambda>n. 0) 0)
     = Inr ([(7205759403792793 / 9007199254740992, 990791918021509 / 1125899906842624),
             (990791918021509 / 1125899906842624, 1)], Rng (\<lambda>n. 0) (Suc 0)) \<and>
   990791918021509 / 1125899906842624 - 7205759403792793 / 9007199254740992
     < min_item_width (item_widths_for 4) \<and>
   float_sub (990791918021509 / 1125899906842624) (7205759403792793 / 9007199254740992)
     < to_double (min_item_width (item_widths_for 4))"
proof -
  let ?gs = "item_widths_for 4"
  have 1: "2 * min_item_width ?gs \<le> max_item_width ?gs"
    by (simp add: item_widths_for_def)
  have 2: "max_item_width ?gs < 1 - 7205759403792793 / 9007199254740992"
    by (simp add: item_widths_for_def GlobalSetup_constants)
  have 3: "to_double (max_item_width ?gs) < float_sub 1 (7205759403792793 / 9007199254740992)"
    unfolding float_widths_4 c1_sub1 by simp
  have 4: "divide_float 1000 ?gs [] (7205759403792793 / 9007199254740992) 1 (Rng (\<lambda>n. 0) 0)
     = Inr ([(7205759403792793 / 9007199254740992, 990791918021509 / 1125899906842624),
             (990791918021509 / 1125899906842624, 1)], Rng (\<lambda>n. 0) (Suc 0))"
    using c1_node11 [of 1000 "[]" 0] by simp
  have 5: "990791918021509 / 1125899906842624 - 7205759403792793 / 9007199254740992
     < min_item_width ?gs"
    by (simp add: item_widths_for_def GlobalSetup_constants)
  have 6: "float_sub (990791918021509 / 1125899906842624) (7205759403792793 / 9007199254740992)
     < to_double (min_item_width ?gs)"
    unfolding float_widths_4 c1_sub7 by simp
  from 1 2 3 4 5 6 show ?thesis by blast
qed

section \<open>Termination in double precision\<close>

text \<open>
  Claim C3, in double precision. On the parts of the unit interval, with the minimum width
  above \<open>7 * 2^-52\<close> and at most half the maximum width, which is at most 1, \<open>divide\<close>
  returns whenever the recursion depth left is at least the number of times that the minimum
  width less \<open>7 * 2^-52\<close> fits into the span, and a split leaves on each side a span shorter
  than the one split by at least the minimum width less \<open>7 * 2^-52\<close>. Both pairs of bounds
  that the class body can fix meet the condition, and a depth of 13 is enough for them.
\<close>

theorem divide_float_total:
  "(7 / 2 ^ 52 < min_item_width gs \<and> 2 * min_item_width gs \<le> max_item_width gs \<and>
    max_item_width gs \<le> 1 \<and> 0 \<le> b \<and> b \<le> e \<and> e \<le> 1 \<and> 0 < depth \<and>
    e - b \<le> real depth * (min_item_width gs - 7 / 2 ^ 52) \<longrightarrow>
      (\<exists>y. divide_float depth gs store b e g = Inr y) \<and>
      (to_double (max_item_width gs) < float_sub e b \<longrightarrow>
         (let d = fst (float_uniform (float_add b (to_double (min_item_width gs)))
                         (float_sub e (to_double (min_item_width gs))) g)
          in d - b \<le> (e - b) - (min_item_width gs - 7 / 2 ^ 52) \<and>
             e - d \<le> (e - b) - (min_item_width gs - 7 / 2 ^ 52)))) \<and>
   (\<forall>n. 7 / 2 ^ 52 < min_item_width (item_widths_for n) \<and>
        2 * min_item_width (item_widths_for n) \<le> max_item_width (item_widths_for n) \<and>
        max_item_width (item_widths_for n) \<le> 1 \<and>
        (0 \<le> b \<and> b \<le> e \<and> e \<le> 1 \<and> 13 \<le> depth \<longrightarrow>
           (\<exists>y. divide_float depth (item_widths_for n) store b e g = Inr y))) \<and>
   (\<forall>g0 gs' g1. GlobalSetup_class_body g0 = Inr (gs', g1) \<longrightarrow>
        (max_item_width gs' = 0.18 \<and> min_item_width gs' = 0.08 \<or>
         max_item_width gs' = 0.27 \<and> min_item_width gs' = 0.12) \<and>
        (0 \<le> b \<and> b \<le> e \<and> e \<le> 1 \<and> 13 \<le> depth \<longrightarrow>
           (\<exists>y. divide_float depth gs' store b e g = Inr y)))"
proof -
  have regime: "\<exists>y. divide_float depth (item_widths_for n) store b e g = Inr y"
    if "0 \<le> b" "b \<le> e" "e \<le> 1" "13 \<le> depth" for n
  proof -
    let ?mg = "min_item_width (item_widths_for n) - 7 / 2 ^ 52"
    have "0 \<le> ?mg" using float_regimes(1) [of n] by simp
    then have "13 * ?mg \<le> real depth * ?mg"
      using that(4) by (intro mult_right_mono) simp_all
    with float_regimes(4) [of n] that(1-3) have "e - b \<le> real depth * ?mg" by linarith
    moreover have "0 < depth" using that(4) by simp
    ultimately show ?thesis
      using divide_float_unit [OF float_regimes(1-3), of b e depth n store g] that(1-3) by blast
  qed
  show ?thesis
  proof (intro conjI allI impI)
    assume a: "7 / 2 ^ 52 < min_item_width gs \<and> 2 * min_item_width gs \<le> max_item_width gs \<and>
      max_item_width gs \<le> 1 \<and> 0 \<le> b \<and> b \<le> e \<and> e \<le> 1 \<and> 0 < depth \<and>
      e - b \<le> real depth * (min_item_width gs - 7 / 2 ^ 52)"
    then show "\<exists>y. divide_float depth gs store b e g = Inr y"
      using divide_float_unit [of gs b e depth store g] by blast
    assume big: "to_double (max_item_width gs) < float_sub e b"
    obtain d g1 where d: "float_uniform (float_add b (to_double (min_item_width gs)))
        (float_sub e (to_double (min_item_width gs))) g = (d, g1)"
      by (cases "float_uniform (float_add b (to_double (min_item_width gs)))
        (float_sub e (to_double (min_item_width gs))) g")
    have "0 \<le> min_item_width gs" using a by simp
    from float_uniform_split [OF this _ _ _ _ _ big d] a
    have "b + min_item_width gs - 7 / 2 ^ 52 \<le> d" "d \<le> e - min_item_width gs + 7 / 2 ^ 52"
      by simp_all
    then show "let d = fst (float_uniform (float_add b (to_double (min_item_width gs)))
                         (float_sub e (to_double (min_item_width gs))) g)
          in d - b \<le> (e - b) - (min_item_width gs - 7 / 2 ^ 52) \<and>
             e - d \<le> (e - b) - (min_item_width gs - 7 / 2 ^ 52)"
      unfolding Let_def d by simp
  next
    fix n
    show "7 / 2 ^ 52 < min_item_width (item_widths_for n)"
      and "2 * min_item_width (item_widths_for n) \<le> max_item_width (item_widths_for n)"
      and "max_item_width (item_widths_for n) \<le> 1"
      by (rule float_regimes)+
    assume "0 \<le> b \<and> b \<le> e \<and> e \<le> 1 \<and> 13 \<le> depth"
    then show "\<exists>y. divide_float depth (item_widths_for n) store b e g = Inr y"
      using regime by blast
  next
    fix g0 gs' g1
    assume "GlobalSetup_class_body g0 = Inr (gs', g1)"
    then obtain n where n: "gs' = item_widths_for n"
      by (auto simp: GlobalSetup_class_body_def and_then_def split: sum.splits)
    show "max_item_width gs' = 0.18 \<and> min_item_width gs' = 0.08 \<or>
         max_item_width gs' = 0.27 \<and> min_item_width gs' = 0.12"
      by (simp add: n item_widths_for_def)
    assume "0 \<le> b \<and> b \<le> e \<and> e \<le> 1 \<and> 13 \<le> depth"
    then show "\<exists>y. divide_float depth gs' store b e g = Inr y"
      unfolding n using regime by blast
  qed
qed

theorem divide_float_total_witness:
  "7 / 2 ^ 52 < min_item_width (item_widths_for 4) \<and>
   2 * min_item_width (item_widths_for 4) \<le> max_item_width (item_widths_for 4) \<and>
   max_item_width (item_widths_for 4) \<le> 1 \<and> (0::real) \<le> 1 \<and> (0::nat) < 13 \<and>
   1 - 0 \<le> real 13 * (min_item_width (item_widths_for 4) - 7 / 2 ^ 52) \<and>
   to_double (max_item_width (item_widths_for 4)) < float_sub 1 0 \<and>
   GlobalSetup_class_body (Rng (\<lambda>n. 0) 0) = Inr (item_widths_for 4, Rng (\<lambda>n. 0) 1) \<and>
   (\<exists>y. divide_float 13 (item_widths_for 4) [] 0 1 (Rng (\<lambda>n. 0) 0) = Inr y)"
proof -
  let ?gs = "item_widths_for 4"
  have h: "7 / 2 ^ 52 < min_item_width ?gs" "2 * min_item_width ?gs \<le> max_item_width ?gs"
    "max_item_width ?gs \<le> 1" by (rule float_regimes)+
  have h4: "(0::real) \<le> 1" "(0::nat) < 13" by simp_all
  have h5: "1 - 0 \<le> real 13 * (min_item_width ?gs - 7 / 2 ^ 52)"
    using float_regimes(4) [of 4] by simp
  have h6: "to_double (max_item_width ?gs) < float_sub 1 0"
    by (simp add: float_sub_def to_double_one float_widths_4)
  have cb: "GlobalSetup_class_body (Rng (\<lambda>n. 0) 0) = Inr (?gs, Rng (\<lambda>n. 0) 1)"
    by (simp add: item_widths_for_def GlobalSetup_constants GlobalSetup_class_body_def
        and_then_def random_randint_def next_raw_def)
  from divide_float_total [of ?gs 0 1 13 "[]" "Rng (\<lambda>n. 0) 0"] h h4 h5
  have "\<exists>y. divide_float 13 ?gs [] 0 1 (Rng (\<lambda>n. 0) 0) = Inr y" by simp
  with h h4 h5 h6 cb show ?thesis by blast
qed

text \<open>Claim C3 as stated fails. Near \<open>10^17\<close> the doubles are 16 apart, so with the bounds
  \<open>0.08\<close> and \<open>0.18\<close> the call on \<open>[1e17, 1e17 + 32]\<close> never gets to a span below the
  maximum width: with the whole of the interpreter's default limit of 1000 frames left it
  ends in \<open>RecursionError\<close>, and so it does with any other depth and any draws.\<close>

theorem divide_float_1e17_counterexample:
  "0 < min_item_width (item_widths_for 4) \<and>
   2 * min_item_width (item_widths_for 4) \<le> max_item_width (item_widths_for 4) \<and>
   divide_float 1000 (item_widths_for 4) [] 100000000000000000 100000000000000032
       (Rng (\<lambda>n. 0) 0)
     = Inl RecursionError"
  using divide_float_1e17 [of 1000 "[]" "Rng (\<lambda>n. 0) 0"]
  by (simp add: item_widths_for_def GlobalSetup_constants)

section \<open>Coordinates\<close>

text \<open>
  Claim C4, as the code has it. \<open>add_unbiased\<close> with the offset \<open>(dx, dy)\<close> gives the same
  object as \<open>add\<close> with \<open>Coords(dx, dy)\<close> followed by one \<open>undo_shift\<close>. Its result is
  still shifted by half the window, \<open>(800, 450)\<close>: it is the coordinate of the offset point
  only after one more \<open>undo_shift\<close>, which every caller applies.
\<close>

theorem add_unbiased_needs_undo_shift:
  "add_unbiased c (dx, dy) = undo_shift (add c (Coords_init dx dy)) \<and>
   coords (add_unbiased c (dx, dy)) = (coord_x c + dx - 800, coord_y c + dy - 450) \<and>
   coords (undo_shift (add_unbiased c (dx, dy))) = (coord_x c + dx, coord_y c + dy) \<and>
   undo_shift (add_unbiased (Coords_init x0 y0) (dx, dy)) = Coords_init (x0 + dx) (y0 + dy)"
  by (simp add: undo_shift_def Coords_init_def add_def add_unbiased_def window_shape_def Let_def)

text \<open>Claim C4 as stated fails: at the origin with the zero offset the result of
  \<open>add_unbiased\<close> is not the coordinate of the offset point.\<close>

theorem add_unbiased_counterexample:
  "\<not> (add_unbiased (Coords_init 0 0) (0, 0)
        = undo_shift (add (Coords_init 0 0) (Coords_init 0 0)) \<and>
      add_unbiased (Coords_init 0 0) (0, 0) = Coords_init (0 + 0) (0 + 0))"
  by (simp add: undo_shift_def Coords_init_def add_def add_unbiased_def window_shape_def Let_def)

text \<open>
  Claim C5, as the code has it. \<open>undo_shift\<close> moves a coordinate by half the window,
  \<open>(800, 450)\<close>, each time it is applied, so a second application moves it again and the
  result differs from that of one application; applied once to the sum of two \<open>Coords\<close>
  it leaves the sum of their coordinates.
\<close>

theorem undo_shift_translates:
  "coords (undo_shift c) = (fst (coords c) + 800, snd (coords c) + 450) \<and>
   coords (undo_shift (undo_shift c)) =
     (fst (coords (undo_shift c)) + 800, snd (coords (undo_shift c)) + 450) \<and>
   coords (undo_shift (undo_shift c)) \<noteq> coords (undo_shift c) \<and>
   coords (undo_shift (add c1 c2)) = (coord_x c1 + coord_x c2, coord_y c1 + coord_y c2)"
  by (simp add: undo_shift_def Coords_init_def add_def window_shape_def Let_def)

text \<open>Claim C5 as stated fails at the coordinate of the origin.\<close>

theorem undo_shift_counterexample:
  "coords (undo_shift (undo_shift (Coords_init 0 0))) \<noteq> coords (undo_shift (Coords_init 0 0))"
  by (simp add: undo_shift_def Coords_init_def window_shape_def Let_def)

section \<open>Item constructors\<close>

lemma and_then_Inr [simp]: "and_then (Inr v) f = f v"
  by (simp add: and_then_def)

lemma and_then_Inl [simp]: "and_then (Inl err) f = Inl err"
  by (simp add: and_then_def)

lemma and_then_eq_Inr: "and_then r f = Inr y \<longleftrightarrow> (\<exists>v. r = Inr v \<and> f v = Inr y)"
  by (cases r) simp_all

lemma randint_ok:
  assumes "a \<le> b"
  shows "\<exists>v g'. random_randint a b g = Inr (v, g') \<and> a \<le> v \<and> v \<le> b"
proof -
  have "0 < nat (b - a + 1)" using assms by simp
  then have "raw g (pos g) mod nat (b - a + 1) < nat (b - a + 1)" by (rule mod_less_divisor)
  then have "int (raw g (pos g) mod nat (b - a + 1)) \<le> b - a" by linarith
  then show ?thesis using assms by (simp add: random_randint_def next_raw_def)
qed

lemma randint_range:
  "random_randint a b g = Inr (v, g') \<Longrightarrow> a \<le> v \<and> v \<le> b"
  using randint_ok [of a b g] by (cases "a \<le> b") (auto simp: random_randint_def)

lemma random_color_ok: "\<exists>c g'. random_color g = Inr (c, g')"
proof -
  obtain r g1 where 1: "random_randint 0 255 g = Inr (r, g1)"
    using randint_ok [of 0 255 g] by auto
  obtain gr g2 where 2: "random_randint 0 255 g1 = Inr (gr, g2)"
    using randint_ok [of 0 255 g1] by auto
  obtain bl g3 where 3: "random_randint 0 255 g2 = Inr (bl, g3)"
    using randint_ok [of 0 255 g2] by auto
  show ?thesis by (simp add: random_color_def 1 2 3)
qed

lemma random_gray_ok: "\<exists>c g'. random_gray g = Inr (c, g')"
  using randint_ok [of 204 255 g] by (auto simp: random_gray_def)

lemma random_beer_color_ok: "\<exists>c g'. random_beer_color g = Inr (c, g')"
proof -
  obtain coin g0 where 0: "random_randint 0 1 g = Inr (coin, g0)"
    using randint_ok [of 0 1 g] by auto
  show ?thesis
  proof (cases "coin = 0")
    case True
    obtain r g1 where 1: "random_randint 0 16 g0 = Inr (r, g1)"
      using randint_ok [of 0 16 g0] by auto
    obtain gr g2 where 2: "random_randint 112 144 g1 = Inr (gr, g2)"
      using randint_ok [of 112 144 g1] by auto
    obtain bl g3 where 3: "random_randint 0 16 g2 = Inr (bl, g3)"
      using randint_ok [of 0 16 g2] by auto
    show ?thesis by (simp add: random_beer_color_def 0 True 1 2 3)
  next
    case False
    obtain r g1 where 1: "random_randint 73 105 g0 = Inr (r, g1)"
      using randint_ok [of 73 105 g0] by auto
    obtain gr g2 where 2: "random_randint 44 76 g1 = Inr (gr, g2)"
      using randint_ok [of 44 76 g1] by auto
    obtain bl g3 where 3: "random_randint 0 47 g2 = Inr (bl, g3)"
      using randint_ok [of 0 47 g2] by auto
    show ?thesis by (simp add: random_beer_color_def 0 False 1 2 3)
  qed
qed

lemma AbstractItem_init_ok:
  "\<exists>c g'. AbstractItem_init lb w h g =
     Inr (\<lparr>item_lb_coords = lb, item_w = of_int w, item_h = of_int h, item_color = c\<rparr>, g')"
  using random_color_ok [of g] by (auto simp: AbstractItem_init_def)


subsection \<open>Jar\<close>

lemma Jar_init_ok:
  assumes "- 1 \<le> h"
  shows "\<exists>it g'. Jar_init lb w h g = Inr (it, g')"
proof -
  obtain c g1 where 1: "AbstractItem_init lb w h g =
     Inr (\<lparr>item_lb_coords = lb, item_w = of_int w, item_h = of_int h, item_color = c\<rparr>, g1)"
    using AbstractItem_init_ok by blast
  have "h div 2 \<le> h" using assms by linarith
  from randint_ok [OF this, of g1] show ?thesis by (auto simp: Jar_init_def 1)
qed


subsection \<open>Salt\<close>

lemma Salt_init_ok: "\<exists>it g'. Salt_init lb w h g = Inr (it, g')"
proof -
  obtain c g1 where 1: "AbstractItem_init lb w h g =
     Inr (\<lparr>item_lb_coords = lb, item_w = of_int w, item_h = of_int h, item_color = c\<rparr>, g1)"
    using AbstractItem_init_ok by blast
  obtain c' g2 where 2: "random_gray g1 = Inr (c', g2)" using random_gray_ok by blast
  show ?thesis by (simp add: Salt_init_def 1 2 Let_def)
qed



subsection \<open>Beer\<close>

lemma Beer_init_ok: "\<exists>it g'. Beer_init lb w h g = Inr (it, g')"
proof -
  obtain c g1 where 1: "AbstractItem_init lb w h g =
     Inr (\<lparr>item_lb_coords = lb, item_w = of_int w, item_h = of_int h, item_color = c\<rparr>, g1)"
    using AbstractItem_init_ok by blast
  obtain bc g2 where 2: "random_beer_color g1 = Inr (bc, g2)" using random_beer_color_ok by blast
  obtain lc g3 where 3: "random_color g2 = Inr (lc, g3)" using random_color_ok by blast
  obtain cc g4 where 4: "random_color g3 = Inr (cc, g4)" using random_color_ok by blast
  show ?thesis
  proof (cases "h > 2 * w")
    case True
    then have "2 * w \<le> h" by simp
    from randint_ok [OF this, of g4] True show ?thesis
      by (auto simp: Beer_init_def 1 2 3 4 Let_def)
  next
    case False
    then show ?thesis by (simp add: Beer_init_def 1 2 3 4 Let_def)
  qed
qed


section \<open>Item fitting\<close>

lemma sqrt3_bounds: "74 / 43 < sqrt 3" "sqrt 3 < 76 / 43"
proof -
  have "(74 / 43 :: real)\<^sup>2 < 3" by (simp add: power2_eq_square)
  then show "74 / 43 < sqrt 3" by (rule real_less_rsqrt)
  have "(3::real) < (76 / 43)\<^sup>2" by (simp add: power2_eq_square)
  then show "sqrt 3 < 76 / 43" by (intro real_less_lsqrt) simp_all
qed

lemma floor_salt_43: "\<lfloor>sqrt 3 * 43 / 2\<rfloor> = 37"
proof (rule floor_unique)
  show "of_int 37 \<le> sqrt 3 * 43 / 2" using sqrt3_bounds(1) by simp
  show "sqrt 3 * 43 / 2 < of_int 37 + 1" using sqrt3_bounds(2) by simp
qed

text \<open>
  Claim C6 at a failing input. A \<open>Salt\<close> given the slot \<open>(43, 37)\<close> is left as it is: the
  test floors \<open>sqrt 3 * 43 / 2 = 37.23...\<close> to \<open>37\<close> before comparing it with the height, so
  the width is not shrunk, and the triangle of side \<open>43\<close> is taller than the slot's height
  \<open>37\<close>.
\<close>

theorem Salt_init_overshoots:
  "\<exists>it g'. Salt_init lb 43 37 g = Inr (it, g') \<and> item_lb_coords it = lb \<and>
     item_w it = 43 \<and> item_h it = 37 \<and> item_h it < item_w it * sqrt 3 / 2"
proof -
  obtain c g1 where 1: "AbstractItem_init lb 43 37 g =
     Inr (\<lparr>item_lb_coords = lb, item_w = of_int 43, item_h = of_int 37, item_color = c\<rparr>, g1)"
    using AbstractItem_init_ok by blast
  obtain c' g2 where 2: "random_gray g1 = Inr (c', g2)" using random_gray_ok by blast
  have "\<not> floordiv (sqrt 3 * 43) 2 > 37" by (simp add: floordiv_def floor_salt_43)
  moreover have "(37::real) < 43 * sqrt 3 / 2" using sqrt3_bounds(1) by simp
  ultimately show ?thesis by (simp add: Salt_init_def 1 2 Let_def)
qed

section \<open>The cap of a bottle\<close>

text \<open>
  Claim C9 on the code. \<open>randint(0, 10)\<close> has eleven outcomes, \<open>0\<close> to \<open>10\<close>, one for each
  residue of the raw draw; the cap is filled with the cap colour for the outcome \<open>0\<close> alone
  and with the label colour for the ten others: one draw in eleven, not one in ten.
\<close>

theorem Beer_cap_one_in_eleven:
  "length [0..10] = 11 \<and>
   [rnd \<leftarrow> [0..10]. tt_fillcolor (cap_color beer0) \<in> set (Beer_draw_cap beer0 rnd)] = [0] \<and>
   [rnd \<leftarrow> [0..10]. tt_fillcolor (label_color beer0) \<in> set (Beer_draw_cap beer0 rnd)]
     = [1, 2, 3, 4, 5, 6, 7, 8, 9, 10] \<and>
   (\<exists>ops. Beer_draw beer0 g =
      Inr (ops @ Beer_draw_cap beer0 (int (raw g (pos g) mod 11)), Rng (raw g) (Suc (pos g))))"
  apply (intro conjI)
  subgoal by simp
  subgoal by (simp add: upto.simps Beer_draw_cap_def beer0_def draw_rectangle_def)
  subgoal by (simp add: upto.simps Beer_draw_cap_def beer0_def draw_rectangle_def)
  subgoal by (simp add: Beer_draw_def random_randint_def next_raw_def Let_def)
  done

section \<open>Shelf construction\<close>


lemma random_choice_ok: "\<exists>t g'. random_choice list_ItemType g = Inr (t, g')"
  by (simp add: random_choice_def list_ItemType_def next_raw_def)

lemma choice_dict_ok:
  assumes "- 1 \<le> h"
  shows "\<exists>it g'. choice_dict t lb w h g = Inr (it, g')"
proof (cases t)
  case JAR
  with Jar_init_ok [OF assms, of lb w g] show ?thesis by auto
next
  case JAR2
  with Jar_init_ok [OF assms, of lb w g] show ?thesis by auto
next
  case SALT
  with Salt_init_ok [of lb w h g] show ?thesis by auto
next
  case BEER
  with Beer_init_ok [of lb w h g] show ?thesis by auto
next
  case BEER2
  with Beer_init_ok [of lb w h g] show ?thesis by auto
qed



lemma place_items_ok:
  assumes "- 1 \<le> height - rack_thickness"
  shows "\<exists>its g'. place_items width height lens lb items g = Inr (its, g')"
proof (induction lens arbitrary: lb items g)
  case Nil
  show ?case by simp
next
  case (Cons len rest)
  obtain t g1 where 1: "random_choice list_ItemType g = Inr (t, g1)"
    using random_choice_ok by blast
  obtain it g2 where 2: "choice_dict t (Coords_init (fst lb) (snd lb))
      (py_int (len * of_int width)) (height - rack_thickness) g1 = Inr (it, g2)"
    using choice_dict_ok [OF assms] by blast
  show ?case using Cons [of "(fst lb + len * of_int width, snd lb)" "items @ [it]" g2]
    by (simp add: 1 2)
qed





lemma Shelf_init_ok:
  assumes "0 < min_item_width gs" "2 * min_item_width gs \<le> max_item_width gs" "4 \<le> h"
  shows "\<exists>sh g'. Shelf_init gs w h lb color g = Some (Inr (sh, g'))"
proof -
  obtain ivs g1 where d: "divide gs [] 0 1 g = Some (ivs, g1)"
    using divide_returns [OF assms(1,2), of "[]" 0 1 g] by auto
  have "- 1 \<le> h - rack_thickness" using assms(3) by (simp add: rack_thickness_def)
  from place_items_ok [OF this] obtain its g2
    where "place_items w h (map (\<lambda>c. snd c - fst c) ivs)
             (of_int (fst lb), of_int (snd lb + rack_thickness)) [] g1 = Inr (its, g2)"
    by blast
  then show ?thesis by (simp add: Shelf_init_def d)
qed

lemma Shelf_init_fields:
  assumes "Shelf_init gs w h lb color g = Some (Inr (sh, g'))"
  shows "shelf_width sh = w \<and> shelf_height sh = h \<and> shelf_lb_coords sh = lb \<and>
         shelf_color sh = color \<and>
         (\<exists>ivs g1. divide gs [] 0 1 g = Some (ivs, g1) \<and>
            place_items w h (map (\<lambda>c. snd c - fst c) ivs)
              (of_int (fst lb), of_int (snd lb + rack_thickness)) [] g1
              = Inr (shelf_items sh, g'))"
  using assms
  by (auto simp: Shelf_init_def and_then_eq_Inr split: option.splits)

section \<open>Items on a shelf\<close>














section \<open>Shelves of a rack\<close>

lemma and_then_opt_Inr [simp]: "and_then_opt (Some (Inr v)) f = f v"
  by (simp add: and_then_opt_def)

lemma and_then_opt_eq_Inr:
  "and_then_opt r f = Some (Inr y) \<longleftrightarrow> (\<exists>v. r = Some (Inr v) \<and> f v = Some (Inr y))"
  by (auto simp: and_then_opt_def split: option.splits sum.splits)

lemma stack_shelves_result:
  assumes "stack_shelves gs n shelf_w shelf_h s_coords color shelves g = Some (Inr (shs, s', g'))"
  shows "\<exists>new. shs = shelves @ new \<and> length new = n \<and>
           (\<forall>sh \<in> set new. shelf_height sh = shelf_h \<and> shelf_width sh = shelf_w) \<and>
           s' = (fst s_coords, snd s_coords + int n * shelf_h)"
  using assms
proof (induction n arbitrary: s_coords shelves g)
  case 0
  then show ?case by simp
next
  case (Suc n)
  from Suc.prems obtain sh g1
    where 1: "Shelf_init gs shelf_w shelf_h s_coords color g = Some (Inr (sh, g1))"
      and 2: "stack_shelves gs n shelf_w shelf_h (fst s_coords, snd s_coords + shelf_h) color
                (shelves @ [sh]) g1 = Some (Inr (shs, s', g'))"
    by (auto simp: and_then_opt_eq_Inr)
  from Suc.IH [OF 2] obtain new
    where n: "shs = (shelves @ [sh]) @ new" "length new = n"
      "\<forall>sh \<in> set new. shelf_height sh = shelf_h \<and> shelf_width sh = shelf_w"
      "s' = (fst s_coords, snd s_coords + shelf_h + int n * shelf_h)"
    by auto
  from Shelf_init_fields [OF 1] have "shelf_height sh = shelf_h \<and> shelf_width sh = shelf_w"
    by simp
  with n show ?case by (intro exI [of _ "sh # new"]) (simp add: algebra_simps)
qed

lemma stack_shelves_ok:
  assumes "0 < min_item_width gs" "2 * min_item_width gs \<le> max_item_width gs" "4 \<le> shelf_h"
  shows "\<exists>shs s' g'.
    stack_shelves gs n shelf_w shelf_h s_coords color shelves g = Some (Inr (shs, s', g'))"
proof (induction n arbitrary: s_coords shelves g)
  case 0
  show ?case by simp
next
  case (Suc n)
  obtain sh g1 where 1: "Shelf_init gs shelf_w shelf_h s_coords color g = Some (Inr (sh, g1))"
    using Shelf_init_ok [OF assms] by blast
  show ?case
    using Suc [of "(fst s_coords, snd s_coords + shelf_h)" "shelves @ [sh]" g1] by (simp add: 1)
qed

lemma n_shelves_range:
  assumes "random_randint min_number_of_shelves max_number_of_shelves g = Inr (k, g1)"
  shows "7 \<le> k \<and> k \<le> 15"
  using randint_range [OF assms] by (simp add: GlobalSetup_constants)

lemma Rack_init_result:
  assumes "Rack_init gs w h lb g = Some (Inr (rack, g'))"
  shows "rack_width rack = w \<and> rack_height rack = h \<and> rack_lb_coords rack = lb \<and>
         7 \<le> rack_n_shelves rack \<and> rack_n_shelves rack \<le> 15 \<and>
         (\<exists>front top. rack_shelves rack = front @ [top] \<and>
            int (length front) = rack_n_shelves rack - 1 \<and>
            (\<forall>sh \<in> set front. shelf_height sh = h div rack_n_shelves rack) \<and>
            shelf_height top = (h div rack_n_shelves rack) div 2)"
proof -
  from assms obtain k g1 c g2
    where k: "random_randint min_number_of_shelves max_number_of_shelves g = Inr (k, g1)"
      and c: "random_color g1 = Inr (c, g2)"
    by (auto simp: Rack_init_def and_then_opt_eq_Inr)
  from n_shelves_range [OF k] have kr: "7 \<le> k" "k \<le> 15" by simp_all
  let ?s = "(fst lb + rack_thickness, snd lb + (h div k) div 2 - rack_thickness div 2)"
  from assms k c kr obtain front s' g3 top g4
    where st: "stack_shelves gs (nat (k - 1)) (w - 2 * rack_thickness) (h div k) ?s c [] g2
                 = Some (Inr (front, s', g3))"
      and tp: "Shelf_init gs (w - 2 * rack_thickness) ((h div k) div 2) s' c g3
                 = Some (Inr (top, g4))"
      and rk: "rack = \<lparr>rack_width = w, rack_height = h, rack_lb_coords = lb,
                     rack_n_shelves = k, rack_color = c, rack_shelves = front @ [top]\<rparr>"
    by (auto simp: Rack_init_def and_then_opt_eq_Inr Let_def)
  from stack_shelves_result [OF st]
  have f: "length front = nat (k - 1)" "\<forall>sh \<in> set front. shelf_height sh = h div k" by auto
  from Shelf_init_fields [OF tp] have t: "shelf_height top = (h div k) div 2" by simp
  from f t kr rk show ?thesis by (intro conjI exI [of _ front] exI [of _ top]) simp_all
qed

lemma Rack_init_ok:
  assumes "0 < min_item_width gs" "2 * min_item_width gs \<le> max_item_width gs" "120 \<le> h"
  shows "\<exists>rack g'. Rack_init gs w h lb g = Some (Inr (rack, g'))"
proof -
  obtain k g1 where k: "random_randint min_number_of_shelves max_number_of_shelves g = Inr (k, g1)"
    using randint_ok [of min_number_of_shelves max_number_of_shelves g]
    by (auto simp: GlobalSetup_constants)
  from n_shelves_range [OF k] have kr: "7 \<le> k" "k \<le> 15" by simp_all
  obtain c g2 where c: "random_color g1 = Inr (c, g2)" using random_color_ok by blast
  have "8 * k \<le> h" using kr assms(3) by linarith
  then have "(8 * k) div k \<le> h div k" using kr by (intro zdiv_mono1) simp_all
  then have q: "8 \<le> h div k" using kr by simp
  then have q4: "4 \<le> h div k" "4 \<le> (h div k) div 2" by linarith+
  let ?s = "(fst lb + rack_thickness, snd lb + (h div k) div 2 - rack_thickness div 2)"
  obtain front s' g3
    where st: "stack_shelves gs (nat (k - 1)) (w - 2 * rack_thickness) (h div k) ?s c [] g2
                 = Some (Inr (front, s', g3))"
    using stack_shelves_ok [OF assms(1,2) q4(1)] by blast
  obtain top g4
    where tp: "Shelf_init gs (w - 2 * rack_thickness) ((h div k) div 2) s' c g3
                 = Some (Inr (top, g4))"
    using Shelf_init_ok [OF assms(1,2) q4(2)] by blast
  show ?thesis using kr by (simp add: Rack_init_def k c st tp Let_def)
qed

lemma stacked_height_le:
  fixes h k :: int
  assumes "0 \<le> h" "0 < k"
  shows "(k - 1) * (h div k) + (h div k) div 2 \<le> h"
proof -
  have q: "0 \<le> h div k" using assms by (simp add: pos_imp_zdiv_nonneg_iff)
  then have "(h div k) div 2 \<le> h div k" by linarith
  then have "(k - 1) * (h div k) + (h div k) div 2 \<le> k * (h div k)"
    by (simp add: algebra_simps)
  also have "\<dots> \<le> h"
  proof -
    have "k * (h div k) + h mod k = h" by simp
    moreover have "0 \<le> h mod k" using assms(2) by simp
    ultimately show ?thesis by linarith
  qed
  finally show ?thesis .
qed

lemma Rack_init_stack:
  assumes r: "Rack_init gs w h lb g = Some (Inr (rack, g'))"
  shows "let k = rack_n_shelves rack; shelves = rack_shelves rack in
         min_number_of_shelves \<le> k \<and> k \<le> max_number_of_shelves \<and>
         int (length shelves) = k \<and>
         (\<forall>i. int i < k - 1 \<longrightarrow> shelf_height (shelves ! i) = h div k) \<and>
         shelf_height (last shelves) = (h div k) div 2 \<and>
         (\<Sum>sh\<leftarrow>shelves. shelf_height sh) = (k - 1) * (h div k) + (h div k) div 2 \<and>
         (0 \<le> h \<longrightarrow> (k - 1) * (h div k) + (h div k) div 2 \<le> h)"
proof -
  define k where "k = rack_n_shelves rack"
  from Rack_init_result [OF r] obtain front top
    where kr: "7 \<le> k" "k \<le> 15"
      and sh: "rack_shelves rack = front @ [top]" "int (length front) = k - 1"
        "\<forall>sh \<in> set front. shelf_height sh = h div k" "shelf_height top = (h div k) div 2"
    unfolding k_def by blast
  have nth: "shelf_height ((front @ [top]) ! i) = h div k" if "int i < k - 1" for i
    using that sh(2,3) by (simp add: nth_append)
  have "(\<Sum>sh\<leftarrow>front. shelf_height sh) = int (length front) * (h div k)"
    using sh(3) by (induction front) (simp_all add: algebra_simps)
  then have sum: "(\<Sum>sh\<leftarrow>front @ [top]. shelf_height sh) = (k - 1) * (h div k) + (h div k) div 2"
    using sh(2,4) by simp
  have le: "0 \<le> h \<Longrightarrow> (k - 1) * (h div k) + (h div k) div 2 \<le> h"
    using stacked_height_le [of h k] kr by simp
  show ?thesis
    unfolding Let_def k_def [symmetric] sh(1)
    using kr sh(2,4) nth sum le by (simp add: GlobalSetup_constants)
qed

lemma build_racks_built:
  assumes "build_racks gs n rack_w h lb rs g = Some (Inr (rs', g'))"
  shows "\<exists>new. rs' = rs @ new \<and> length new = n \<and>
           (\<forall>r \<in> set new. \<exists>lb0 g0 g1. Rack_init gs rack_w h lb0 g0 = Some (Inr (r, g1)))"
  using assms
proof (induction n arbitrary: lb rs g)
  case 0
  then show ?case by simp
next
  case (Suc n)
  from Suc.prems obtain r g1
    where 1: "Rack_init gs rack_w h lb g = Some (Inr (r, g1))"
      and 2: "build_racks gs n rack_w h (fst lb + rack_w, snd lb) (rs @ [r]) g1
                = Some (Inr (rs', g'))"
    by (auto simp: and_then_opt_eq_Inr)
  from Suc.IH [OF 2] obtain new
    where n: "rs' = (rs @ [r]) @ new" "length new = n"
      "\<forall>r \<in> set new. \<exists>lb0 g0 g1. Rack_init gs rack_w h lb0 g0 = Some (Inr (r, g1))"
    by blast
  have "\<exists>lb0 g0 g1. Rack_init gs rack_w h lb0 g0 = Some (Inr (r', g1))"
    if "r' \<in> set (r # new)" for r'
  proof (cases "r' = r")
    case True
    with 1 show ?thesis by blast
  next
    case False
    with that n(3) show ?thesis by simp
  qed
  with n(1,2) show ?case by (intro exI [of _ "r # new"]) simp
qed

lemma Screen_init_racks:
  assumes "Screen_init gs screen_width screen_height pad g = Some (Inr (window, g'))"
    and "rack \<in> set (racks window)"
  shows "1 \<le> rack_h window \<and>
         (\<exists>w lb0 g0 g1. Rack_init gs w (rack_h window) lb0 g0 = Some (Inr (rack, g1)))"
proof -
  from assms(1) obtain rw rh lb rs
    where ok: "\<not> rh < 1"
      and br: "build_racks gs (nat (n_racks gs)) rw rh lb [] g = Some (Inr (rs, g'))"
      and w: "rack_h window = rh" "racks window = rs"
    by (auto simp: Screen_init_def window_shape_def Let_def and_then_opt_eq_Inr
        split: if_splits)
  from build_racks_built [OF br] assms(2) w(2)
  obtain lb0 g0 g1 where "Rack_init gs rw rh lb0 g0 = Some (Inr (rack, g1))" by auto
  then have "\<exists>w lb0 g0 g1. Rack_init gs w (rack_h window) lb0 g0 = Some (Inr (rack, g1))"
    unfolding w(1) by blast
  moreover have "1 \<le> rack_h window" using ok w(1) by simp
  ultimately show ?thesis by blast
qed

section \<open>The whole run\<close>

lemma Item_draw_ok: "\<exists>ops g'. Item_draw it g = Inr (ops, g')"
proof (cases it)
  case (BeerItem b)
  from randint_ok [of 0 10 g] show ?thesis
    by (auto simp: BeerItem Beer_draw_def Let_def)
qed simp_all

lemma draw_items_ok: "\<exists>ops g'. draw_items its g = Inr (ops, g')"
proof (induction its arbitrary: g)
  case Nil
  show ?case by simp
next
  case (Cons it its)
  obtain ops g1 where 1: "Item_draw it g = Inr (ops, g1)" using Item_draw_ok by blast
  obtain ops' g2 where 2: "draw_items its g1 = Inr (ops', g2)" using Cons by blast
  show ?case by (simp add: 1 2)
qed

lemma Shelf_draw_ok: "\<exists>ops g'. Shelf_draw sh g = Inr (ops, g')"
  using draw_items_ok [of "shelf_items sh" g] by (auto simp: Shelf_draw_def)

lemma draw_shelves_ok: "\<exists>ops g'. draw_shelves shs g = Inr (ops, g')"
proof (induction shs arbitrary: g)
  case Nil
  show ?case by simp
next
  case (Cons sh shs)
  obtain ops g1 where 1: "Shelf_draw sh g = Inr (ops, g1)" using Shelf_draw_ok by blast
  obtain ops' g2 where 2: "draw_shelves shs g1 = Inr (ops', g2)" using Cons by blast
  show ?case by (simp add: 1 2)
qed

lemma Rack_draw_ok: "\<exists>ops g'. Rack_draw r g = Inr (draw_rack_alone r @ ops, g')"
  using draw_shelves_ok [of "rack_shelves r" g] by (auto simp: Rack_draw_def)

lemma draw_racks_ok: "\<exists>ops g'. draw_racks rs g = Inr (ops, g')"
proof (induction rs arbitrary: g)
  case Nil
  show ?case by simp
next
  case (Cons r rs)
  obtain ops g1 where 1: "Rack_draw r g = Inr (draw_rack_alone r @ ops, g1)"
    using Rack_draw_ok by blast
  obtain ops' g2 where 2: "draw_racks rs g1 = Inr (ops', g2)" using Cons by blast
  show ?case by (simp add: 1 2)
qed

lemma draw_racks_first:
  "\<exists>ops g'. draw_racks (r # rs) g = Inr (draw_rack_alone r @ ops, g')"
proof -
  obtain ops g1 where 1: "Rack_draw r g = Inr (draw_rack_alone r @ ops, g1)"
    using Rack_draw_ok by blast
  obtain ops' g2 where 2: "draw_racks rs g1 = Inr (ops', g2)" using draw_racks_ok by blast
  show ?thesis by (simp add: 1 2)
qed

lemma build_racks_prefix:
  "build_racks gs n rack_w h lb rs g = Some (Inr (rs', g')) \<Longrightarrow> \<exists>new. rs' = rs @ new"
proof (induction n arbitrary: lb rs g)
  case 0
  then show ?case by simp
next
  case (Suc n)
  from Suc.prems obtain r g1
    where "build_racks gs n rack_w h (fst lb + rack_w, snd lb) (rs @ [r]) g1 = Some (Inr (rs', g'))"
    by (auto simp: and_then_opt_eq_Inr)
  from Suc.IH [OF this] show ?case by auto
qed

lemma build_racks_ok:
  assumes "0 < min_item_width gs" "2 * min_item_width gs \<le> max_item_width gs" "120 \<le> h"
  shows "\<exists>rs' g'. build_racks gs n rack_w h lb rs g = Some (Inr (rs', g'))"
proof (induction n arbitrary: lb rs g)
  case 0
  show ?case by simp
next
  case (Suc n)
  obtain r g1 where 1: "Rack_init gs rack_w h lb g = Some (Inr (r, g1))"
    using Rack_init_ok [OF assms] by blast
  show ?case using Suc [of "(fst lb + rack_w, snd lb)" "rs @ [r]" g1] by (simp add: 1)
qed

lemma build_racks_first:
  assumes "0 < min_item_width gs" "2 * min_item_width gs \<le> max_item_width gs" "120 \<le> h"
  shows "\<exists>r rest g'. build_racks gs (Suc n) rack_w h lb [] g = Some (Inr (r # rest, g')) \<and>
           rack_width r = rack_w \<and> rack_height r = h \<and> rack_lb_coords r = lb"
proof -
  obtain r g1 where 1: "Rack_init gs rack_w h lb g = Some (Inr (r, g1))"
    using Rack_init_ok [OF assms] by blast
  obtain rs' g' where 2: "build_racks gs n rack_w h (fst lb + rack_w, snd lb) [r] g1
      = Some (Inr (rs', g'))"
    using build_racks_ok [OF assms] by blast
  from build_racks_prefix [OF 2] obtain rest where "rs' = r # rest" by auto
  with 1 2 Rack_init_result [OF 1] show ?thesis by simp
qed

lemma Screen_init_first:
  assumes n: "4 \<le> n" "n \<le> 11"
  shows "\<exists>r rest g2.
      Screen_init (item_widths_for n) None None (Some GlobalSetup_padding) g =
        Some (Inr (\<lparr>window_height = 900, window_width = 1600, screen_n_racks = n,
                    screen_pad = GlobalSetup_padding, joint_rack_w = 1120, rack_h = 630,
                    racks = r # rest\<rparr>, g2)) \<and>
      rack_width r = 1120 div n \<and> rack_height r = 630 \<and> rack_lb_coords r = (240, 135)"
proof -
  let ?gs = "item_widths_for n"
  have nr: "n_racks ?gs = n" by (simp add: item_widths_for_def)
  have valid: "0 < min_item_width ?gs" "2 * min_item_width ?gs \<le> max_item_width ?gs"
    using item_widths_valid [of n] by simp_all
  have "1120 div 11 \<le> 1120 div n" using n by (intro zdiv_mono2) simp_all
  then have rw: "\<not> 1120 div n < 1" by simp
  obtain m where m: "nat n = Suc m" using n by (cases "nat n") simp_all
  from build_racks_first [OF valid, of 630 m "1120 div n" "(240, 135)" g]
  obtain r rest g2 where br: "build_racks ?gs (Suc m) (1120 div n) 630 (240, 135) [] g
        = Some (Inr (r # rest, g2))"
      and r: "rack_width r = 1120 div n" "rack_height r = 630" "rack_lb_coords r = (240, 135)"
    by auto
  have br': "build_racks ?gs (nat n) (1120 div n) 630 (240, 135) [] g
        = Some (Inr (r # rest, g2))"
    unfolding m by (rule br)
  have "Screen_init ?gs None None (Some GlobalSetup_padding) g =
        Some (Inr (\<lparr>window_height = 900, window_width = 1600, screen_n_racks = n,
                    screen_pad = GlobalSetup_padding, joint_rack_w = 1120, rack_h = 630,
                    racks = r # rest\<rparr>, g2))"
    using n rw
    by (simp add: Screen_init_def window_shape_def GlobalSetup_padding_def
        GlobalSetup_constants nr br' Let_def)
  with r show ?thesis by blast
qed

lemma program_run:
  assumes n: "4 \<le> n" "n \<le> 11"
    and load: "GlobalSetup_class_body g_load = Inr (item_widths_for n, g1)"
  shows "\<exists>ops. program twister g_load None None = Some (Inr ops) \<and>
           ops ! 37 = tt_setpos (of_int (1120 div n) - 565, - 315)"
proof -
  let ?gs = "item_widths_for n"
  let ?g = "random_seed twister 677"
  from Screen_init_first [OF n, of ?g] obtain r rest g2
    where si': "Screen_init ?gs None None (Some GlobalSetup_padding) ?g =
        Some (Inr (\<lparr>window_height = 900, window_width = 1600, screen_n_racks = n,
                    screen_pad = GlobalSetup_padding, joint_rack_w = 1120, rack_h = 630,
                    racks = r # rest\<rparr>, g2))"
      and r: "rack_width r = 1120 div n" "rack_height r = 630" "rack_lb_coords r = (240, 135)"
    by blast
  define window where "window = \<lparr>window_height = 900, window_width = 1600,
      screen_n_racks = n, screen_pad = GlobalSetup_padding, joint_rack_w = 1120,
      rack_h = 630, racks = r # rest\<rparr>"
  have si: "Screen_init ?gs None None (Some GlobalSetup_padding) ?g = Some (Inr (window, g2))"
    unfolding window_def by (rule si')
  obtain ops g3 where dr: "draw_racks (r # rest) g2 = Inr (draw_rack_alone r @ ops, g3)"
    using draw_racks_first by blast
  have sd: "Screen_draw window g2 =
      Inr ([tt_hideturtle]
           @ draw_rectangle (Coords_init 240 135) (1120, 630)
               cellar_background_color cellar_background_color
           @ (draw_rack_alone r @ ops) @ [tt_update], g3)"
    by (simp add: Screen_draw_def window_def dr GlobalSetup_padding_def GlobalSetup_constants
        del: draw_racks.simps)
  have run: "program twister g_load None None =
      Some (Inr (Screen_setup window @ [tt_hideturtle]
           @ draw_rectangle (Coords_init 240 135) (1120, 630)
               cellar_background_color cellar_background_color
           @ (draw_rack_alone r @ ops) @ [tt_update]))"
    by (simp add: program_def load main_def si sd Let_def)
  have "(Screen_setup window @ [tt_hideturtle]
           @ draw_rectangle (Coords_init 240 135) (1120, 630)
               cellar_background_color cellar_background_color
           @ (draw_rack_alone r @ ops) @ [tt_update]) ! 37
        = tt_setpos (of_int (1120 div n) - 565, - 315)"
    by (simp add: Screen_setup_def draw_rectangle_def draw_rack_alone_def r
        Coords_init_def window_shape_def rack_thickness_def Let_def nth_append)
  with run show ?thesis by simp
qed

section \<open>Shelf stacking\<close>

text \<open>
  Claim C7. Every constructed \<open>Rack\<close> has exactly \<open>k = n_shelves\<close> shelves, with \<open>k\<close>
  between the two shelf-count bounds: the first \<open>k - 1\<close> have the height \<open>h // k\<close>, the
  last one has half of it, \<open>(h // k) // 2\<close>, and the heights add up to
  \<open>(k - 1) * (h // k) + (h // k) // 2\<close>, which is at most the rack's height \<open>h\<close> when \<open>h\<close>
  is not negative. A \<open>Screen\<close> only builds racks of height at least 1, so all this holds of
  every rack of a constructed \<open>Screen\<close>. A rack of height at least 120 is constructed for
  every state of the generator, under a positive minimum item width that is at most half
  the maximum.
\<close>

theorem Rack_shelves:
  "(\<forall>rack g'. Rack_init gs w h lb g = Some (Inr (rack, g')) \<longrightarrow>
      (let k = rack_n_shelves rack; shelves = rack_shelves rack in
         min_number_of_shelves \<le> k \<and> k \<le> max_number_of_shelves \<and>
         int (length shelves) = k \<and>
         (\<forall>i. int i < k - 1 \<longrightarrow> shelf_height (shelves ! i) = h div k) \<and>
         shelf_height (last shelves) = (h div k) div 2 \<and>
         (\<Sum>sh\<leftarrow>shelves. shelf_height sh) = (k - 1) * (h div k) + (h div k) div 2 \<and>
         (0 \<le> h \<longrightarrow> (k - 1) * (h div k) + (h div k) div 2 \<le> h))) \<and>
   (\<forall>window g' rack.
      Screen_init gs screen_width screen_height pad g = Some (Inr (window, g')) \<longrightarrow>
      rack \<in> set (racks window) \<longrightarrow>
      (let k = rack_n_shelves rack; shelves = rack_shelves rack; hr = rack_h window in
         int (length shelves) = k \<and>
         (\<forall>i. int i < k - 1 \<longrightarrow> shelf_height (shelves ! i) = hr div k) \<and>
         shelf_height (last shelves) = (hr div k) div 2 \<and>
         (\<Sum>sh\<leftarrow>shelves. shelf_height sh) = (k - 1) * (hr div k) + (hr div k) div 2 \<and>
         (k - 1) * (hr div k) + (hr div k) div 2 \<le> hr \<and> rack_height rack = hr)) \<and>
   (0 < min_item_width gs \<and> 2 * min_item_width gs \<le> max_item_width gs \<and> 120 \<le> h \<longrightarrow>
      (\<exists>rack g'. Rack_init gs w h lb g = Some (Inr (rack, g'))))"
proof (intro conjI allI impI)
  fix rack g'
  assume "Rack_init gs w h lb g = Some (Inr (rack, g'))"
  then show "let k = rack_n_shelves rack; shelves = rack_shelves rack in
         min_number_of_shelves \<le> k \<and> k \<le> max_number_of_shelves \<and>
         int (length shelves) = k \<and>
         (\<forall>i. int i < k - 1 \<longrightarrow> shelf_height (shelves ! i) = h div k) \<and>
         shelf_height (last shelves) = (h div k) div 2 \<and>
         (\<Sum>sh\<leftarrow>shelves. shelf_height sh) = (k - 1) * (h div k) + (h div k) div 2 \<and>
         (0 \<le> h \<longrightarrow> (k - 1) * (h div k) + (h div k) div 2 \<le> h)"
    by (rule Rack_init_stack)
next
  fix window g' rack
  assume "Screen_init gs screen_width screen_height pad g = Some (Inr (window, g'))"
    and "rack \<in> set (racks window)"
  from Screen_init_racks [OF this] obtain w0 lb0 g0 g1
    where h1: "1 \<le> rack_h window"
      and r: "Rack_init gs w0 (rack_h window) lb0 g0 = Some (Inr (rack, g1))"
    by blast
  from Rack_init_result [OF r] have "rack_height rack = rack_h window" by simp
  with Rack_init_stack [OF r] h1
  show "let k = rack_n_shelves rack; shelves = rack_shelves rack; hr = rack_h window in
         int (length shelves) = k \<and>
         (\<forall>i. int i < k - 1 \<longrightarrow> shelf_height (shelves ! i) = hr div k) \<and>
         shelf_height (last shelves) = (hr div k) div 2 \<and>
         (\<Sum>sh\<leftarrow>shelves. shelf_height sh) = (k - 1) * (hr div k) + (hr div k) div 2 \<and>
         (k - 1) * (hr div k) + (hr div k) div 2 \<le> hr \<and> rack_height rack = hr"
    by (simp add: Let_def)
next
  assume "0 < min_item_width gs \<and> 2 * min_item_width gs \<le> max_item_width gs \<and> 120 \<le> h"
  then show "\<exists>rack g'. Rack_init gs w h lb g = Some (Inr (rack, g'))"
    using Rack_init_ok by blast
qed

theorem Rack_shelves_witness:
  "0 < min_item_width (item_widths_for 4) \<and>
   2 * min_item_width (item_widths_for 4) \<le> max_item_width (item_widths_for 4) \<and>
   (120::int) \<le> 630 \<and>
   (\<exists>rack g'. Rack_init (item_widths_for 4) 280 630 (240, 135) (Rng (\<lambda>n. 0) 0)
                  = Some (Inr (rack, g')) \<and>
      int (length (rack_shelves rack)) = rack_n_shelves rack \<and>
      shelf_height (last (rack_shelves rack)) = (630 div rack_n_shelves rack) div 2 \<and>
      (\<Sum>sh\<leftarrow>rack_shelves rack. shelf_height sh) \<le> 630) \<and>
   (\<exists>window g' rack.
      Screen_init (item_widths_for 4) None None (Some GlobalSetup_padding) (Rng (\<lambda>n. 0) 0)
        = Some (Inr (window, g')) \<and>
      rack \<in> set (racks window) \<and> rack_h window = 630 \<and>
      int (length (rack_shelves rack)) = rack_n_shelves rack \<and>
      (\<Sum>sh\<leftarrow>rack_shelves rack. shelf_height sh) \<le> 630)"
proof -
  let ?gs = "item_widths_for 4"
  let ?g = "Rng (\<lambda>n. 0) 0"
  have v: "0 < min_item_width ?gs \<and> 2 * min_item_width ?gs \<le> max_item_width ?gs \<and> (120::int) \<le> 630"
    using item_widths_valid [of 4] by simp
  note T = Rack_shelves [of ?gs 280 630 "(240, 135)" ?g None None "Some GlobalSetup_padding"]
  from T v obtain rack g' where r: "Rack_init ?gs 280 630 (240, 135) ?g
      = Some (Inr (rack, g'))" by blast
  with T have "let k = rack_n_shelves rack; shelves = rack_shelves rack in
         min_number_of_shelves \<le> k \<and> k \<le> max_number_of_shelves \<and>
         int (length shelves) = k \<and>
         (\<forall>i. int i < k - 1 \<longrightarrow> shelf_height (shelves ! i) = 630 div k) \<and>
         shelf_height (last shelves) = (630 div k) div 2 \<and>
         (\<Sum>sh\<leftarrow>shelves. shelf_height sh) = (k - 1) * (630 div k) + (630 div k) div 2 \<and>
         ((0::int) \<le> 630 \<longrightarrow> (k - 1) * (630 div k) + (630 div k) div 2 \<le> 630)"
    by blast
  then have one: "int (length (rack_shelves rack)) = rack_n_shelves rack \<and>
      shelf_height (last (rack_shelves rack)) = (630 div rack_n_shelves rack) div 2 \<and>
      (\<Sum>sh\<leftarrow>rack_shelves rack. shelf_height sh) \<le> 630"
    by (simp add: Let_def)
  from Screen_init_first [of 4 ?g] obtain window g2 r0
    where s: "Screen_init ?gs None None (Some GlobalSetup_padding) ?g = Some (Inr (window, g2))"
      and w: "r0 \<in> set (racks window)" "rack_h window = 630"
    by fastforce
  with T have "let k = rack_n_shelves r0; shelves = rack_shelves r0; hr = rack_h window in
         int (length shelves) = k \<and>
         (\<forall>i. int i < k - 1 \<longrightarrow> shelf_height (shelves ! i) = hr div k) \<and>
         shelf_height (last shelves) = (hr div k) div 2 \<and>
         (\<Sum>sh\<leftarrow>shelves. shelf_height sh) = (k - 1) * (hr div k) + (hr div k) div 2 \<and>
         (k - 1) * (hr div k) + (hr div k) div 2 \<le> hr \<and> rack_height r0 = hr"
    by blast
  then have two: "int (length (rack_shelves r0)) = rack_n_shelves r0 \<and>
      (\<Sum>sh\<leftarrow>rack_shelves r0. shelf_height sh) \<le> 630"
    using w(2) by (simp add: Let_def)
  from v r one s w two show ?thesis by blast
qed

section \<open>Reproducibility\<close>

text \<open>
  Claim C2 on the code. The class body of \<open>GlobalSetup\<close> draws \<open>n_racks\<close> when the module
  is loaded, before \<open>main\<close> seeds the generator. Two runs with the same seed and the same
  window, started from generator states whose first raw outputs are \<open>0\<close> and \<open>7\<close>, build
  4 and 11 racks: both runs return, and their 38th turtle calls already differ (the right
  bar of the first rack is at \<open>x = -285\<close> in one and at \<open>x = -464\<close> in the other).
\<close>

theorem program_depends_on_load_state:
  "\<exists>ops_a ops_b.
     program twister (Rng (\<lambda>n. 0) 0) None None = Some (Inr ops_a) \<and>
     program twister (Rng (\<lambda>n. 7) 0) None None = Some (Inr ops_b) \<and>
     ops_a ! 37 = tt_setpos (- 285, - 315) \<and>
     ops_b ! 37 = tt_setpos (- 464, - 315) \<and>
     ops_a \<noteq> ops_b"
proof -
  have a: "GlobalSetup_class_body (Rng (\<lambda>n. 0) 0) = Inr (item_widths_for 4, Rng (\<lambda>n. 0) 1)"
    by (simp add: GlobalSetup_class_body_def random_randint_def next_raw_def GlobalSetup_constants)
  have b: "GlobalSetup_class_body (Rng (\<lambda>n. 7) 0) = Inr (item_widths_for 11, Rng (\<lambda>n. 7) 1)"
    by (simp add: GlobalSetup_class_body_def random_randint_def next_raw_def GlobalSetup_constants)
  from program_run [OF _ _ a, of twister] obtain ops_a
    where A: "program twister (Rng (\<lambda>n. 0) 0) None None = Some (Inr ops_a)"
      "ops_a ! 37 = tt_setpos (- 285, - 315)" by auto
  from program_run [OF _ _ b, of twister] obtain ops_b
    where B: "program twister (Rng (\<lambda>n. 7) 0) None None = Some (Inr ops_b)"
      "ops_b ! 37 = tt_setpos (- 464, - 315)" by auto
  from A(2) B(2) have "ops_a \<noteq> ops_b" by auto
  with A B show ?thesis by blast
qed

end
